theory Spec2Isabelle
  imports Main "HOL-Library.AList"
begin

section \<open>The chat server of \<^verbatim>\<open>src/server.ts\<close>\<close>

text \<open>
  The chat part of \<^verbatim>\<open>server.ts\<close> (lines 65 to 200) registers, for every connection,
  one packet middleware (\<^verbatim>\<open>socket.use\<close>), one \<^verbatim>\<open>error\<close> listener, seven event
  handlers and one \<^verbatim>\<open>disconnect\<close> handler on a socket.io server with the default
  in-memory adapter. The handlers are modelled as functions on an explicit server state;
  every \<^verbatim>\<open>emit\<close> call becomes one entry of an emission log, holding the connections
  the call reaches (in delivery order) and the event with its payload.

  There are two layers. \<open>step\<close> and \<open>run\<close> handle one event at a time, to its end: that
  is what the server does with a packet that is read while nothing is pending. \<open>exec\<close>
  and \<open>execs\<close> follow the server through the three moments of an event (the packet is
  read and passes the middleware or not, the deferred call runs, the handler continues
  after its \<^verbatim>\<open>await\<close>), in any order the event loop can take them; the lemmas
  \<open>alone_Inbound\<close> and \<open>alone_Close\<close> show that the first layer is the second one for a
  packet that is read alone.
\<close>

subsection \<open>Payloads\<close>

text \<open>\<^verbatim>\<open>interface ChatMessage\<close>, lines 67 to 74.\<close>

record ChatMessage =
  messageId :: string
  room :: string
  author :: string
  message :: string
  time :: string

text \<open>
  The events a client sends, with the payload type each handler declares. \<open>Other\<close> is an
  event name that no listener is registered for: it passes the middleware and is then
  ignored. A client can also send an event named \<^verbatim>\<open>error\<close>: it reaches the listener of
  lines 108 to 114 like an error of the middleware. The name \<^verbatim>\<open>disconnect\<close>, which the
  library reserves for itself, is not among the events a client sends here.
\<close>

datatype inbound =
    JoinRoom string string \<comment> \<open>\<^verbatim>\<open>join_room {room, author}\<close>\<close>
  | SendMessage ChatMessage \<comment> \<open>\<^verbatim>\<open>send_message\<close>\<close>
  | Typing string string \<comment> \<open>\<^verbatim>\<open>typing {room, author}\<close>\<close>
  | StopTyping string string \<comment> \<open>\<^verbatim>\<open>stop_typing {room, author}\<close>\<close>
  | MessageRead string string string \<comment> \<open>\<^verbatim>\<open>message_read {room, messageId, reader}\<close>\<close>
  | PrivateMessage string ChatMessage \<comment> \<open>\<^verbatim>\<open>private_message {toSocketId, message}\<close>\<close>
  | ReactMessage string string string string
      \<comment> \<open>\<^verbatim>\<open>react_message {room, messageId, emoji, reactor}\<close>\<close>
  | ErrorEvent "string option" \<comment> \<open>\<^verbatim>\<open>error\<close>, with the \<^verbatim>\<open>message\<close> of its payload if any\<close>
  | Other string

text \<open>
  The events the server sends. A JavaScript object with string values
  (\<^verbatim>\<open>Record<string, string>\<close>) is the list of its own properties in creation order.
\<close>

type_synonym js_object = "(string \<times> string) list"

datatype outbound =
    status string \<comment> \<open>\<^verbatim>\<open>{status}\<close>\<close>
  | online_users "(string \<times> string) list" \<comment> \<open>array of \<^verbatim>\<open>{username, socketId}\<close>\<close>
  | user_joined string string js_object \<comment> \<open>\<^verbatim>\<open>{author, socketId, users}\<close>\<close>
  | user_left "string option" js_object \<comment> \<open>\<^verbatim>\<open>{author, users}\<close>\<close>
  | receive_message ChatMessage
  | user_typing string
  | user_stop_typing string
  | update_read_receipts string string \<comment> \<open>\<^verbatim>\<open>{messageId, reader}\<close>\<close>
  | receive_private_message ChatMessage
  | update_reactions string string string \<comment> \<open>\<^verbatim>\<open>{messageId, emoji, reactor}\<close>\<close>

text \<open>One \<^verbatim>\<open>emit\<close> call: the ids of the connections it is written to, and the event.\<close>

type_synonym emission = "string list \<times> outbound"

subsection \<open>Server state\<close>

text \<open>
  Per connection: the handshake token (\<^verbatim>\<open>socket.handshake.auth.token\<close>, \<open>None\<close> when the
  client sent none) and the two attributes the handlers keep in \<^verbatim>\<open>socket.data\<close>, each
  \<open>None\<close> while undefined (line 181 reads them as \<^verbatim>\<open>{room?: string; author?: string}\<close>).
\<close>

record socket =
  token :: "string option"
  data_room :: "string option"
  data_author :: "string option"

text \<open>
  The namespace's table of connected sockets (\<^verbatim>\<open>nsp.sockets\<close>, a map from socket id to
  socket) and the adapter's table of rooms (\<^verbatim>\<open>adapter.rooms\<close>, a map from room name to
  a \<^verbatim>\<open>Set\<close> of socket ids, which JavaScript iterates in insertion order). A room that
  the adapter does not hold is the empty list.
\<close>

record server =
  sockets :: "string \<Rightarrow> socket option"
  rooms :: "string \<Rightarrow> string list"

definition init :: server where
  "init = \<lparr>sockets = (\<lambda>_. None), rooms = (\<lambda>_. [])\<rparr>"

subsection \<open>The socket.io primitives the handlers call\<close>

text \<open>
  The library is not part of the repository. The definitions follow the sources of
  socket.io 4 (the first major version with \<^verbatim>\<open>fetchSockets\<close>) and of its in-memory
  adapter, socket.io-adapter 2:
  \<^item> \<^verbatim>\<open>socket.join(room)\<close> is \<^verbatim>\<open>adapter.addAll(id, new Set([room]))\<close>: the id is added
    to the room's set unless it is there already. Joining leaves no room.
  \<^item> When a socket closes, \<^verbatim>\<open>adapter.delAll(id)\<close> takes the id out of every room.
  \<^item> A broadcast (\<^verbatim>\<open>adapter.broadcast\<close>) and \<^verbatim>\<open>adapter.fetchSockets\<close> both enumerate
    \<^verbatim>\<open>adapter.apply(opts, callback)\<close>: with \<^verbatim>\<open>except = computeExceptSids(opts.except)\<close>,
    the ids of every socket in one of the \<^verbatim>\<open>except\<close> rooms, it goes through the ids of
    the target room in the set's order and skips an id when \<^verbatim>\<open>except.has(id)\<close> or when
    \<^verbatim>\<open>nsp.sockets.get(id)\<close> is undefined.
  \<^item> \<^verbatim>\<open>chatIO.in(room)\<close> has the one target room and no \<^verbatim>\<open>except\<close> room.
  \<^item> \<^verbatim>\<open>socket.to(room)\<close> is \<^verbatim>\<open>this.newBroadcastOperator().to(room)\<close>, and the operator is
    \<^verbatim>\<open>new BroadcastOperator(this.adapter, new Set(), new Set([this.id]), flags)\<close>: its
    one \<^verbatim>\<open>except\<close> room is the room named by the sender's id, which every socket joins
    when it connects (\<^verbatim>\<open>this.join(this.id)\<close> in \<^verbatim>\<open>Socket._onconnect\<close>). The sender is
    excluded because it is in that room, and so is any other socket that joined it.
\<close>

definition addAll :: "string \<Rightarrow> string \<Rightarrow> (string \<Rightarrow> string list) \<Rightarrow> (string \<Rightarrow> string list)" where
  "addAll i r rs = (if i \<in> set (rs r) then rs else rs(r := rs r @ [i]))"

definition delAll :: "string \<Rightarrow> (string \<Rightarrow> string list) \<Rightarrow> (string \<Rightarrow> string list)" where
  "delAll i rs = (\<lambda>r. removeAll i (rs r))"

definition computeExceptSids :: "server \<Rightarrow> string list \<Rightarrow> string list" where
  "computeExceptSids s ex = concat (map (rooms s) ex)"

definition apply_opts :: "server \<Rightarrow> string \<Rightarrow> string list \<Rightarrow> string list" where
  "apply_opts s r ex =
     [i \<leftarrow> rooms s r. i \<notin> set (computeExceptSids s ex) \<and> sockets s i \<noteq> None]"

definition in_room :: "server \<Rightarrow> string \<Rightarrow> string list" where
  "in_room s r = apply_opts s r []"

definition to_room :: "server \<Rightarrow> string \<Rightarrow> string \<Rightarrow> string list" where
  "to_room s i r = apply_opts s r [i]"

subsection \<open>The \<^verbatim>\<open>users\<close> object\<close>

text \<open>
  \<^verbatim>\<open>users[k] = v\<close> on a plain object: an existing own property keeps its place and gets
  the new value, a new one is created last. The key \<^verbatim>\<open>__proto__\<close> is the accessor
  inherited from \<^verbatim>\<open>Object.prototype\<close>, whose setter ignores a string: no own property is
  created.
\<close>

definition obj_set :: "js_object \<Rightarrow> string \<Rightarrow> string \<Rightarrow> js_object" where
  "obj_set ob k v = (if k = ''__proto__'' then ob else AList.update k v ob)"

text \<open>
  \<^verbatim>\<open>Object.entries\<close> lists the own properties whose key is an array index (the canonical
  decimal form of an integer from 0 to \<open>2\<^sup>3\<^sup>2 - 2\<close>) first, in ascending numeric order,
  and then the other keys in creation order.
\<close>

definition is_digit :: "char \<Rightarrow> bool" where
  "is_digit ch = (ch \<in> set ''0123456789'')"

definition index_value :: "string \<Rightarrow> int" where
  "index_value k = foldl (\<lambda>n ch. 10 * n + (of_char ch - 48)) 0 k"

definition is_array_index :: "string \<Rightarrow> bool" where
  "is_array_index k =
     (k \<noteq> [] \<and> list_all is_digit k \<and> (hd k \<noteq> CHR ''0'' \<or> k = ''0'') \<and>
      index_value k \<le> 4294967294)"

definition obj_entries :: "js_object \<Rightarrow> (string \<times> string) list" where
  "obj_entries ob =
     sort_key (\<lambda>p. index_value (fst p)) [p \<leftarrow> ob. is_array_index (fst p)]
     @ [p \<leftarrow> ob. \<not> is_array_index (fst p)]"

text \<open>
  Lines 124 to 129 and again 186 to 191: over the sockets that \<^verbatim>\<open>fetchSockets\<close>
  returned, \<^verbatim>\<open>if (s.data.author) users[s.data.author] = s.id\<close>. A string is truthy when
  it is not empty.
\<close>

definition author_of :: "server \<Rightarrow> string \<Rightarrow> string option" where
  "author_of s i = (case sockets s i of None \<Rightarrow> None | Some sk \<Rightarrow> data_author sk)"

fun forEach_users :: "server \<Rightarrow> string list \<Rightarrow> js_object \<Rightarrow> js_object" where
  "forEach_users s [] users = users"
| "forEach_users s (i # clients) users =
     forEach_users s clients
       (case author_of s i of
          None \<Rightarrow> users
        | Some a \<Rightarrow> if a \<noteq> [] then obj_set users a i else users)"

text \<open>
  The object both handlers build, from the sockets of the room as \<^verbatim>\<open>fetchSockets\<close>
  enumerates them (lines 122 to 129, and the same code at lines 184 to 191).
\<close>

definition presence :: "server \<Rightarrow> string \<Rightarrow> js_object" where
  "presence s r = forEach_users s (in_room s r) []"

subsection \<open>Handlers\<close>

text \<open>
  The middleware of lines 96 to 106: the event goes on when the token is truthy and
  \<^verbatim>\<open>verifyAccessToken\<close> does not throw. The verifier lives in \<^verbatim>\<open>modules/auth/jwt.js\<close>;
  it is the parameter \<open>verify\<close>, true when the call returns.
\<close>

definition authorized :: "(string \<Rightarrow> bool) \<Rightarrow> socket \<Rightarrow> bool" where
  "authorized verify sk =
     (case token sk of None \<Rightarrow> False | Some t \<Rightarrow> t \<noteq> [] \<and> verify t)"

text \<open>
  \<^verbatim>\<open>join_room\<close>, lines 117 to 137, when nothing else runs between its \<^verbatim>\<open>await\<close> and
  its continuation: the roster is built on the state that lines 118 to 120 leave. The
  handler in its two halves is \<open>start\<close> and \<open>resume_cont\<close> below.
\<close>

definition on_join_room ::
  "server \<Rightarrow> string \<Rightarrow> socket \<Rightarrow> string \<Rightarrow> string \<Rightarrow> emission list \<times> server" where
  "on_join_room s i sk r a =
     (let s1 = s\<lparr>rooms := addAll i r (rooms s)\<rparr>;
          s2 = s1\<lparr>sockets := (sockets s1)(i \<mapsto> sk\<lparr>data_room := Some r, data_author := Some a\<rparr>)\<rparr>;
          users = presence s2 r
      in ([(in_room s2 r, online_users (obj_entries users)),
           (in_room s2 r, user_joined a i users)], s2))"

text \<open>
  A socket that closes (\<^verbatim>\<open>Socket._onclose\<close>) first leaves every room and is taken out
  of \<^verbatim>\<open>nsp.sockets\<close>; only then is \<^verbatim>\<open>disconnect\<close> fired, and the handler of lines 180
  to 199 runs on that state with the \<^verbatim>\<open>socket.data\<close> of the closed socket.
\<close>

definition onclose :: "server \<Rightarrow> string \<Rightarrow> server" where
  "onclose s i = s\<lparr>sockets := (sockets s)(i := None), rooms := delAll i (rooms s)\<rparr>"

definition on_disconnect :: "server \<Rightarrow> socket \<Rightarrow> emission list" where
  "on_disconnect s sk =
     (case data_room sk of
        None \<Rightarrow> []
      | Some r \<Rightarrow>
          if r = [] then []
          else (let users = presence s r
                in [(in_room s r, online_users (obj_entries users)),
                    (in_room s r, user_left (data_author sk) users)]))"

definition disconnect :: "server \<Rightarrow> string \<Rightarrow> socket \<Rightarrow> emission list \<times> server" where
  "disconnect s i sk = (let s' = onclose s i in (on_disconnect s' sk, s'))"

text \<open>
  The \<^verbatim>\<open>error\<close> listener of lines 108 to 114, called with the middleware's
  \<^verbatim>\<open>Error('unauthorized')\<close>: one \<^verbatim>\<open>status\<close> event to the socket itself, then
  \<^verbatim>\<open>socket.disconnect()\<close>.
\<close>

definition on_error :: "server \<Rightarrow> string \<Rightarrow> socket \<Rightarrow> emission list \<times> server" where
  "on_error s i sk =
     (([i], status ''unauthorized'') # fst (disconnect s i sk), snd (disconnect s i sk))"

text \<open>
  The handlers of lines 140 to 177: one relay each, through \<^verbatim>\<open>socket.to\<close>. An
  \<^verbatim>\<open>error\<close> event of the client is given to the listener above, which acts when
  \<^verbatim>\<open>err.message == 'unauthorized'\<close>.
\<close>

fun handle :: "server \<Rightarrow> string \<Rightarrow> socket \<Rightarrow> inbound \<Rightarrow> emission list \<times> server" where
  "handle s i sk (JoinRoom r a) = on_join_room s i sk r a"
| "handle s i sk (SendMessage d) = ([(to_room s i (room d), receive_message d)], s)"
| "handle s i sk (Typing r a) = ([(to_room s i r, user_typing a)], s)"
| "handle s i sk (StopTyping r a) = ([(to_room s i r, user_stop_typing a)], s)"
| "handle s i sk (MessageRead r m rd) = ([(to_room s i r, update_read_receipts m rd)], s)"
| "handle s i sk (PrivateMessage x m) = ([(to_room s i x, receive_private_message m)], s)"
| "handle s i sk (ReactMessage r m e rc) = ([(to_room s i r, update_reactions m e rc)], s)"
| "handle s i sk (ErrorEvent m) =
     (if m = Some ''unauthorized'' then on_error s i sk else ([], s))"
| "handle s i sk (Other n) = ([], s)"

subsection \<open>Events and runs\<close>

text \<open>
  What happens to the server: a client connects (the transport gives the socket an id no
  connected socket has, the socket joins the room named by its id), a connected client
  sends an event, or a connection is closed by the transport. A packet for an id with no
  connected socket reaches no middleware and no handler. \<open>step\<close> takes each of them to its
  end: the middleware, the handler or the error listener, and what the handler does after
  its \<^verbatim>\<open>await\<close>.
\<close>

datatype event =
    Connect string "string option"
  | Inbound string inbound
  | Close string

definition onconnect :: "server \<Rightarrow> string \<Rightarrow> string option \<Rightarrow> server" where
  "onconnect s i tok =
     s\<lparr>sockets := (sockets s)(i \<mapsto> \<lparr>token = tok, data_room = None, data_author = None\<rparr>),
       rooms := addAll i i (rooms s)\<rparr>"

fun step :: "(string \<Rightarrow> bool) \<Rightarrow> server \<Rightarrow> event \<Rightarrow> emission list \<times> server" where
  "step verify s (Connect i tok) =
     (case sockets s i of None \<Rightarrow> ([], onconnect s i tok) | Some sk \<Rightarrow> ([], s))"
| "step verify s (Inbound i e) =
     (case sockets s i of
        None \<Rightarrow> ([], s)
      | Some sk \<Rightarrow> if authorized verify sk then handle s i sk e else on_error s i sk)"
| "step verify s (Close i) =
     (case sockets s i of None \<Rightarrow> ([], s) | Some sk \<Rightarrow> disconnect s i sk)"

text \<open>
  A run: each event comes with the verifier as it answers at that moment (a token can
  expire between two events).
\<close>

fun run :: "server \<Rightarrow> ((string \<Rightarrow> bool) \<times> event) list \<Rightarrow> emission list \<times> server" where
  "run s [] = ([], s)"
| "run s (ve # ves) =
     (fst (step (fst ve) s (snd ve)) @ fst (run (snd (step (fst ve) s (snd ve))) ves),
      snd (run (snd (step (fst ve) s (snd ve))) ves))"

text \<open>The events a connection receives from a log, in order.\<close>

definition received :: "string \<Rightarrow> emission list \<Rightarrow> outbound list" where
  "received i ems = map snd [em \<leftarrow> ems. i \<in> set (fst em)]"

text \<open>The socket ids an event's payload names.\<close>

fun payload_ids :: "outbound \<Rightarrow> string list" where
  "payload_ids (online_users es) = map snd es"
| "payload_ids (user_joined a i us) = i # map snd us"
| "payload_ids (user_left a us) = map snd us"
| "payload_ids ev = []"

text \<open>The presence entries an event's payload carries.\<close>

fun payload_users :: "outbound \<Rightarrow> (string \<times> string) list" where
  "payload_users (online_users es) = es"
| "payload_users (user_joined a i us) = us"
| "payload_users (user_left a us) = us"
| "payload_users ev = []"


text \<open>An emission names connected sockets only, as receivers and in its payload.\<close>

definition live_only :: "server \<Rightarrow> emission \<Rightarrow> bool" where
  "live_only s em =
     (set (fst em) \<subseteq> {j. sockets s j \<noteq> None} \<and>
      set (payload_ids (snd em)) \<subseteq> {j. sockets s j \<noteq> None})"

subsection \<open>The event loop\<close>

text \<open>
  \<open>step\<close> handles one event from the middleware to the last emission of its handler. The
  server does that in three separate moments, and other work can come in between:
  \<^item> When a packet is read, \<^verbatim>\<open>Socket.dispatch\<close> runs the middleware at once and defers
    the rest with \<^verbatim>\<open>process.nextTick\<close>:
    \<^verbatim>\<open>if (err) return this._onerror(err); if (this.connected) super.emitUntyped.apply(this, event);\<close>
    Packets that are read together have all passed the middleware before the first
    deferred call runs.
  \<^item> A deferred call runs: \<^verbatim>\<open>_onerror\<close> calls the \<^verbatim>\<open>error\<close> listener, whether the socket
    is still connected or not; the event's handler is called only if the socket is still
    connected. The handler of \<^verbatim>\<open>join_room\<close> and the \<^verbatim>\<open>disconnect\<close> handler run up to
    their \<^verbatim>\<open>await\<close>: \<^verbatim>\<open>fetchSockets\<close> of the in-memory adapter has enumerated the room
    by then, and returns a resolved promise.
  \<^item> The handler continues after its \<^verbatim>\<open>await\<close>, once the deferred calls that were
    pending have run: it reads \<^verbatim>\<open>s.data.author\<close> and \<^verbatim>\<open>s.id\<close> of the sockets it fetched
    as they are now, and emits to the room as it is now.

  A deferred call: the error listener for a rejected packet of a socket, or the handler
  of an event of a socket.
\<close>

datatype task =
    Onerror string
  | Emit string inbound

text \<open>
  A handler suspended at its \<^verbatim>\<open>await\<close>, with what it holds in local variables:
  for \<^verbatim>\<open>join_room\<close> the payload's author, the socket's id, the payload's room and the
  ids of the fetched sockets (line 122); for \<^verbatim>\<open>disconnect\<close> the author and the room of
  line 181 and the ids of the fetched sockets (line 184).
\<close>

datatype cont =
    AfterJoin string string string "string list"
  | AfterClose "string option" string "string list"

text \<open>
  The server between two moments: its tables, the \<^verbatim>\<open>socket.data\<close> of the sockets that
  have closed (a suspended handler may still hold such a socket), the deferred calls in
  the order they were made, and the suspended handlers in the order they suspended.
\<close>

record node =
  srv :: server
  closed :: "string \<Rightarrow> socket option"
  ticks :: "task list"
  conts :: "cont list"

definition quiet :: "server \<Rightarrow> node" where
  "quiet s = \<lparr>srv = s, closed = (\<lambda>_. None), ticks = [], conts = []\<rparr>"

text \<open>The socket objects a suspended handler can hold: connected or closed.\<close>

definition objects :: "node \<Rightarrow> server" where
  "objects n =
     (srv n)\<lparr>sockets := (\<lambda>j. case sockets (srv n) j of None \<Rightarrow> closed n j | Some sk \<Rightarrow> Some sk)\<rparr>"

text \<open>
  \<^verbatim>\<open>Socket._onclose\<close>, reached from \<^verbatim>\<open>socket.disconnect()\<close> and from the transport:
  nothing if the socket is not connected; else it leaves its rooms, is taken out of the
  table, and the \<^verbatim>\<open>disconnect\<close> handler runs up to its \<^verbatim>\<open>await\<close> (lines 180 to 184).
\<close>

definition socket_onclose :: "node \<Rightarrow> string \<Rightarrow> node" where
  "socket_onclose n i =
     (case sockets (srv n) i of
        None \<Rightarrow> n
      | Some sk \<Rightarrow>
          n\<lparr>srv := onclose (srv n) i,
            closed := (closed n)(i \<mapsto> sk),
            conts := conts n @
              (case data_room sk of
                 None \<Rightarrow> []
               | Some r \<Rightarrow>
                   if r = [] then []
                   else [AfterClose (data_author sk) r (in_room (onclose (srv n) i) r)])\<rparr>)"

text \<open>
  The \<^verbatim>\<open>error\<close> listener (lines 108 to 114) on an error whose message is
  \<^verbatim>\<open>unauthorized\<close>: it emits \<^verbatim>\<open>status\<close> to the socket, connected or not, and calls
  \<^verbatim>\<open>socket.disconnect()\<close>.
\<close>

definition listener :: "node \<Rightarrow> string \<Rightarrow> emission list \<times> node" where
  "listener n i = ([([i], status ''unauthorized'')], socket_onclose n i)"

text \<open>Lines 118 to 120: the socket joins the room and its two attributes are set.\<close>

definition joined :: "server \<Rightarrow> string \<Rightarrow> socket \<Rightarrow> string \<Rightarrow> string \<Rightarrow> server" where
  "joined s i sk r a =
     s\<lparr>rooms := addAll i r (rooms s),
       sockets := (sockets s)(i \<mapsto> sk\<lparr>data_room := Some r, data_author := Some a\<rparr>)\<rparr>"

text \<open>
  The handler of an event, up to its \<^verbatim>\<open>await\<close> if it has one: \<^verbatim>\<open>join_room\<close> suspends
  with the sockets of line 122; a relay emits; the \<^verbatim>\<open>error\<close> event of a client goes to
  the listener.
\<close>

fun start :: "node \<Rightarrow> string \<Rightarrow> socket \<Rightarrow> inbound \<Rightarrow> emission list \<times> node" where
  "start n i sk (JoinRoom r a) =
     ([], n\<lparr>srv := joined (srv n) i sk r a,
            conts := conts n @ [AfterJoin a i r (in_room (joined (srv n) i sk r a) r)]\<rparr>)"
| "start n i sk (SendMessage d) = ([(to_room (srv n) i (room d), receive_message d)], n)"
| "start n i sk (Typing r a) = ([(to_room (srv n) i r, user_typing a)], n)"
| "start n i sk (StopTyping r a) = ([(to_room (srv n) i r, user_stop_typing a)], n)"
| "start n i sk (MessageRead r m rd) = ([(to_room (srv n) i r, update_read_receipts m rd)], n)"
| "start n i sk (PrivateMessage x m) = ([(to_room (srv n) i x, receive_private_message m)], n)"
| "start n i sk (ReactMessage r m e rc) = ([(to_room (srv n) i r, update_reactions m e rc)], n)"
| "start n i sk (ErrorEvent m) = (if m = Some ''unauthorized'' then listener n i else ([], n))"
| "start n i sk (Other nm) = ([], n)"

fun run_task :: "node \<Rightarrow> task \<Rightarrow> emission list \<times> node" where
  "run_task n (Onerror i) = listener n i"
| "run_task n (Emit i e) =
     (case sockets (srv n) i of None \<Rightarrow> ([], n) | Some sk \<Rightarrow> start n i sk e)"

text \<open>
  A handler continues: lines 124 to 135, and lines 186 to 196. The author of each fetched
  socket is read now, and \<^verbatim>\<open>chatIO.in(room)\<close> is enumerated now.
\<close>

fun resume_cont :: "node \<Rightarrow> cont \<Rightarrow> emission list" where
  "resume_cont n (AfterJoin a i r clients) =
     (let users = forEach_users (objects n) clients []
      in [(in_room (srv n) r, online_users (obj_entries users)),
          (in_room (srv n) r, user_joined a i users)])"
| "resume_cont n (AfterClose a r clients) =
     (let users = forEach_users (objects n) clients []
      in [(in_room (srv n) r, online_users (obj_entries users)),
          (in_room (srv n) r, user_left a users)])"

text \<open>
  What can happen next: a packet is read (with the verifier as it answers then), the
  oldest deferred call runs, the oldest suspended handler continues, a client connects
  (with an id that no socket has or had), or the transport of a socket closes.
\<close>

datatype act =
    Arrive "string \<Rightarrow> bool" string inbound
  | Tick
  | Resume
  | Open string "string option"
  | Shut string

fun exec :: "node \<Rightarrow> act \<Rightarrow> emission list \<times> node" where
  "exec n (Arrive verify i e) =
     (case sockets (srv n) i of
        None \<Rightarrow> ([], n)
      | Some sk \<Rightarrow>
          ([], n\<lparr>ticks := ticks n @ [if authorized verify sk then Emit i e else Onerror i]\<rparr>))"
| "exec n Tick =
     (case ticks n of [] \<Rightarrow> ([], n) | t # ts \<Rightarrow> run_task (n\<lparr>ticks := ts\<rparr>) t)"
| "exec n Resume =
     (case conts n of [] \<Rightarrow> ([], n) | k # ks \<Rightarrow> (resume_cont n k, n\<lparr>conts := ks\<rparr>))"
| "exec n (Open i tok) =
     (case sockets (srv n) i of
        Some sk \<Rightarrow> ([], n)
      | None \<Rightarrow>
          (case closed n i of
             Some sk \<Rightarrow> ([], n)
           | None \<Rightarrow> ([], n\<lparr>srv := onconnect (srv n) i tok\<rparr>)))"
| "exec n (Shut i) = ([], socket_onclose n i)"

fun execs :: "node \<Rightarrow> act list \<Rightarrow> emission list \<times> node" where
  "execs n [] = ([], n)"
| "execs n (a # as) =
     (fst (exec n a) @ fst (execs (snd (exec n a)) as), snd (execs (snd (exec n a)) as))"

text \<open>The room and the fetched sockets of a suspended handler.\<close>

fun cont_room :: "cont \<Rightarrow> string" where
  "cont_room (AfterJoin a i r clients) = r"
| "cont_room (AfterClose a r clients) = r"

fun cont_clients :: "cont \<Rightarrow> string list" where
  "cont_clients (AfterJoin a i r clients) = clients"
| "cont_clients (AfterClose a r clients) = clients"

text \<open>
  Events, deferred calls and steps that leave a connection \<open>c\<close> connected and its author
  attribute as it is: an event of \<open>c\<close> that is neither \<^verbatim>\<open>join_room\<close> nor an \<^verbatim>\<open>error\<close>
  with the message \<^verbatim>\<open>unauthorized\<close>; no error listener for \<open>c\<close>; a packet of \<open>c\<close> that
  passes the middleware with such an event; no close of the transport of \<open>c\<close>.
\<close>

fun calm_event :: "inbound \<Rightarrow> bool" where
  "calm_event (JoinRoom r a) = False"
| "calm_event (ErrorEvent m) = (m \<noteq> Some ''unauthorized'')"
| "calm_event e = True"

fun calm_task :: "string \<Rightarrow> task \<Rightarrow> bool" where
  "calm_task c (Onerror i) = (i \<noteq> c)"
| "calm_task c (Emit i e) = (i \<noteq> c \<or> calm_event e)"

fun calm_act :: "string \<Rightarrow> socket \<Rightarrow> act \<Rightarrow> bool" where
  "calm_act c sk (Arrive verify i e) = (i \<noteq> c \<or> (authorized verify sk \<and> calm_event e))"
| "calm_act c sk (Shut i) = (i \<noteq> c)"
| "calm_act c sk a = True"

text \<open>
  A connection \<open>c\<close> that has joined room \<open>r\<close> with author \<open>a\<close>: it is connected with that
  author attribute, it is in the room, nothing that is pending will change that, and every
  suspended handler that fetched the room has fetched \<open>c\<close>.
\<close>

definition listed :: "string \<Rightarrow> string \<Rightarrow> string \<Rightarrow> socket \<Rightarrow> node \<Rightarrow> bool" where
  "listed c r a sk m =
     ((\<exists>sk'. sockets (srv m) c = Some sk' \<and> data_author sk' = Some a \<and> token sk' = token sk) \<and>
      c \<in> set (rooms (srv m) r) \<and>
      list_all (calm_task c) (ticks m) \<and>
      list_all (\<lambda>k. cont_room k \<noteq> r \<or> c \<in> set (cont_clients k)) (conts m))"

subsection \<open>Example data\<close>

text \<open>The message of the specification's scenario, and the socket of a fresh connection.\<close>

definition msg1 :: ChatMessage where
  "msg1 = \<lparr>messageId = ''m1'', room = ''general'', author = ''alice'', message = ''hi'',
            time = ''t1''\<rparr>"

definition fresh :: "string option \<Rightarrow> socket" where
  "fresh tok = \<lparr>token = tok, data_room = None, data_author = None\<rparr>"

text \<open>A verifier that accepts every token, and one that accepts none.\<close>

definition accept :: "string \<Rightarrow> bool" where
  "accept t = True"

definition reject :: "string \<Rightarrow> bool" where
  "reject t = False"

text \<open>Two clients connect and join the room \<^verbatim>\<open>general\<close> as alice and bob.\<close>

definition two_in_general :: "((string \<Rightarrow> bool) \<times> event) list" where
  "two_in_general =
     [(accept, Connect ''c1'' (Some ''tok'')),
      (accept, Inbound ''c1'' (JoinRoom ''general'' ''alice'')),
      (accept, Connect ''c2'' (Some ''tok'')),
      (accept, Inbound ''c2'' (JoinRoom ''general'' ''bob''))]"


text \<open>Three clients connect; the second and the third join \<^verbatim>\<open>general\<close>.\<close>

definition three_clients :: "((string \<Rightarrow> bool) \<times> event) list" where
  "three_clients =
     [(accept, Connect ''c1'' (Some ''tok'')),
      (accept, Connect ''c2'' (Some ''tok'')),
      (accept, Connect ''c3'' (Some ''tok'')),
      (accept, Inbound ''c2'' (JoinRoom ''general'' ''bob'')),
      (accept, Inbound ''c3'' (JoinRoom ''general'' ''carol''))]"

text \<open>A client joins the room \<^verbatim>\<open>a\<close> and then the room \<^verbatim>\<open>b\<close>; a second client connects.\<close>

definition moved :: "((string \<Rightarrow> bool) \<times> event) list" where
  "moved =
     [(accept, Connect ''c1'' (Some ''tok'')),
      (accept, Inbound ''c1'' (JoinRoom ''a'' ''alice'')),
      (accept, Inbound ''c1'' (JoinRoom ''b'' ''alice'')),
      (accept, Connect ''c2'' (Some ''tok''))]"

text \<open>Two clients join the room whose name is the empty string.\<close>

definition unnamed_room :: "((string \<Rightarrow> bool) \<times> event) list" where
  "unnamed_room =
     [(accept, Connect ''c1'' (Some ''tok'')),
      (accept, Inbound ''c1'' (JoinRoom [] ''alice'')),
      (accept, Connect ''c2'' (Some ''tok'')),
      (accept, Inbound ''c2'' (JoinRoom [] ''bob''))]"

text \<open>
  A client joins \<^verbatim>\<open>general\<close> with the empty string as author, or with \<^verbatim>\<open>__proto__\<close>; a
  second client connects.
\<close>

definition nameless :: "((string \<Rightarrow> bool) \<times> event) list" where
  "nameless =
     [(accept, Connect ''c1'' (Some ''tok'')),
      (accept, Inbound ''c1'' (JoinRoom ''general'' [])),
      (accept, Connect ''c2'' (Some ''tok''))]"

definition proto_named :: "((string \<Rightarrow> bool) \<times> event) list" where
  "proto_named =
     [(accept, Connect ''c1'' (Some ''tok'')),
      (accept, Inbound ''c1'' (JoinRoom ''general'' ''__proto__'')),
      (accept, Connect ''c2'' (Some ''tok''))]"

text \<open>
  After bob's \<^verbatim>\<open>join_room\<close> has been read: its broadcast, a relay of bob, and a third client
  that connects and joins \<^verbatim>\<open>general\<close> as carol.
\<close>

definition after_bob :: "act list" where
  "after_bob =
     [Resume,
      Arrive accept ''c2'' (Typing ''general'' ''bob''),
      Open ''c3'' (Some ''tok''),
      Arrive accept ''c3'' (JoinRoom ''general'' ''carol''),
      Tick, Tick]"

definition bob_arrives :: node where
  "bob_arrives =
     snd (exec (quiet (snd (run init (take 3 two_in_general))))
            (Arrive accept ''c2'' (JoinRoom ''general'' ''bob'')))"

definition bob_listed :: node where
  "bob_listed = snd (execs (snd (exec bob_arrives Tick)) after_bob)"

section \<open>Properties\<close>

subsection \<open>The \<^verbatim>\<open>users\<close> object and the roster\<close>

lemma set_obj_entries: "set (obj_entries ob) = set ob"
  by (auto simp: obj_entries_def)

lemma length_obj_entries: "length (obj_entries ob) = length ob"
  by (simp add: obj_entries_def sum_length_filter_compl)

lemma obj_entries_single: "obj_entries [p] = [p]"
  by (simp add: obj_entries_def)

lemma set_update_subset: "set (AList.update k v al) \<subseteq> insert (k, v) (set al)"
  by (induction al) auto

lemma set_obj_set_subset: "set (obj_set ob k v) \<subseteq> insert (k, v) (set ob)"
  using set_update_subset [of k v ob] by (auto simp: obj_set_def)

lemma distinct_obj_set: "distinct (map fst ob) \<Longrightarrow> distinct (map fst (obj_set ob k v))"
  by (simp add: obj_set_def distinct_update)

lemma map_of_obj_set:
  "map_of (obj_set ob k v) = (if k = ''__proto__'' then map_of ob else (map_of ob)(k \<mapsto> v))"
  by (simp add: obj_set_def update_conv')

lemma distinct_forEach_users:
  "distinct (map fst users) \<Longrightarrow> distinct (map fst (forEach_users s cl users))"
  by (induction cl arbitrary: users) (auto simp: distinct_obj_set split: option.splits)

text \<open>An entry of the object comes from an enumerated socket with a truthy author.\<close>

lemma forEach_users_entry:
  "(a, i) \<in> set (forEach_users s cl users) \<Longrightarrow>
     (a, i) \<in> set users \<or> (i \<in> set cl \<and> author_of s i = Some a \<and> a \<noteq> [])"
proof (induction cl arbitrary: users)
  case Nil
  then show ?case by simp
next
  case (Cons j cl)
  show ?case
  proof (cases "author_of s j")
    case None
    with Cons show ?thesis by fastforce
  next
    case (Some b)
    show ?thesis
    proof (cases "b = []")
      case True
      with Some Cons show ?thesis by fastforce
    next
      case False
      from Cons.prems Some False
      have "(a, i) \<in> set (forEach_users s cl (obj_set users b j))" by simp
      from Cons.IH [OF this] set_obj_set_subset [of users b j] Some False
      show ?thesis by auto
    qed
  qed
qed

text \<open>The last enumerated socket with a given author owns that author's entry.\<close>

lemma map_of_forEach_users:
  "map_of (forEach_users s cl users) k =
     (if k = ''__proto__'' \<or> k = [] \<or> [i \<leftarrow> cl. author_of s i = Some k] = []
      then map_of users k
      else Some (last [i \<leftarrow> cl. author_of s i = Some k]))"
proof (induction cl arbitrary: users)
  case Nil
  show ?case by simp
next
  case (Cons j cl)
  show ?case
    by (cases "author_of s j") (auto simp: Cons.IH map_of_obj_set)
qed

subsection \<open>Rooms, handlers and steps\<close>

lemma in_room_alt: "in_room s r = [i \<leftarrow> rooms s r. sockets s i \<noteq> None]"
  by (simp add: in_room_def apply_opts_def computeExceptSids_def)

lemma to_room_alt:
  "to_room s c r = [i \<leftarrow> rooms s r. i \<notin> set (rooms s c) \<and> sockets s i \<noteq> None]"
  by (simp add: to_room_def apply_opts_def computeExceptSids_def)

lemma presence_entry:
  "(a, i) \<in> set (presence s r) \<Longrightarrow> i \<in> set (in_room s r) \<and> author_of s i = Some a \<and> a \<noteq> []"
  using forEach_users_entry [of a i s "in_room s r" "[]"] by (simp add: presence_def)

lemma distinct_presence: "distinct (map fst (presence s r))"
  by (simp add: presence_def distinct_forEach_users)

lemma in_room_live: "i \<in> set (in_room s r) \<Longrightarrow> sockets s i \<noteq> None"
  by (simp add: in_room_alt)

lemma to_room_live: "i \<in> set (to_room s c r) \<Longrightarrow> sockets s i \<noteq> None"
  by (simp add: to_room_alt)

lemma sockets_onclose: "sockets (onclose s c) = (sockets s)(c := None)"
  by (simp add: onclose_def)

lemma rooms_onclose: "rooms (onclose s c) r = removeAll c (rooms s r)"
  by (simp add: onclose_def delAll_def)

lemma presence_ids_live: "j \<in> snd ` set (presence s r) \<Longrightarrow> sockets s j \<noteq> None"
  using presence_entry [of _ j s r] in_room_live [of j s r] by auto

lemma on_disconnect_eq:
  "data_room sk = Some r \<Longrightarrow> r \<noteq> [] \<Longrightarrow>
     on_disconnect s sk = [(in_room s r, online_users (obj_entries (presence s r))),
                           (in_room s r, user_left (data_author sk) (presence s r))]"
  by (simp add: on_disconnect_def Let_def)

lemma on_disconnect_none:
  "data_room sk = None \<or> data_room sk = Some [] \<Longrightarrow> on_disconnect s sk = []"
  by (auto simp: on_disconnect_def)

lemma fst_on_join_room:
  "fst (on_join_room s i sk r a) =
     [(in_room (snd (on_join_room s i sk r a)) r,
       online_users (obj_entries (presence (snd (on_join_room s i sk r a)) r))),
      (in_room (snd (on_join_room s i sk r a)) r,
       user_joined a i (presence (snd (on_join_room s i sk r a)) r))]"
  by (simp add: on_join_room_def Let_def)

lemma sockets_on_join_room:
  "sockets (snd (on_join_room s i sk r a)) =
     (sockets s)(i \<mapsto> sk\<lparr>data_room := Some r, data_author := Some a\<rparr>)"
  by (simp add: on_join_room_def Let_def)

lemma rooms_on_join_room:
  "rooms (snd (on_join_room s i sk r a)) = addAll i r (rooms s)"
  by (simp add: on_join_room_def Let_def)

lemma live_only_online_users:
  "live_only s (in_room s r, online_users (obj_entries (presence s r)))"
  using presence_ids_live [of _ s r] in_room_live [of _ s r]
  by (auto simp: live_only_def set_obj_entries)

lemma live_only_user_left: "live_only s (in_room s r, user_left b (presence s r))"
  using presence_ids_live [of _ s r] in_room_live [of _ s r]
  by (auto simp: live_only_def)

lemma live_only_user_joined:
  "sockets s i \<noteq> None \<Longrightarrow> live_only s (in_room s r, user_joined a i (presence s r))"
  using presence_ids_live [of _ s r] in_room_live [of _ s r]
  by (auto simp: live_only_def)

lemma live_only_to_room:
  "payload_ids ev = [] \<Longrightarrow> live_only s (to_room s i r, ev)"
  using to_room_live [of _ s i r] by (auto simp: live_only_def)


lemma disconnect_live:
  assumes em: "em \<in> set (fst (disconnect s i sk))"
  shows "live_only (onclose s i) em"
proof (cases "data_room sk = None \<or> data_room sk = Some []")
  case True
  with em show ?thesis by (simp add: disconnect_def Let_def on_disconnect_none)
next
  case False
  then obtain r where r: "data_room sk = Some r" "r \<noteq> []" by auto
  from em on_disconnect_eq [OF r, of "onclose s i"]
  have "em = (in_room (onclose s i) r, online_users (obj_entries (presence (onclose s i) r))) \<or>
        em = (in_room (onclose s i) r, user_left (data_author sk) (presence (onclose s i) r))"
    by (auto simp: disconnect_def Let_def)
  with live_only_online_users live_only_user_left show ?thesis by auto
qed

lemma snd_disconnect: "snd (disconnect s i sk) = onclose s i"
  by (simp add: disconnect_def Let_def)

lemma snd_on_error: "snd (on_error s i sk) = onclose s i"
  by (simp add: on_error_def snd_disconnect)

lemma fst_on_error:
  "fst (on_error s i sk) = ([i], status ''unauthorized'') # on_disconnect (onclose s i) sk"
  by (simp add: on_error_def disconnect_def Let_def)

lemma fst_disconnect: "fst (disconnect s i sk) = on_disconnect (onclose s i) sk"
  by (simp add: disconnect_def Let_def)

lemma on_error_live:
  assumes em: "em \<in> set (fst (on_error s i sk))" and live: "sockets s i = Some sk"
    and j: "j \<in> set (fst em) \<or> j \<in> set (payload_ids (snd em))"
  shows "sockets s j \<noteq> None \<or> sockets (onclose s i) j \<noteq> None"
proof -
  from em have "em = ([i], status ''unauthorized'') \<or> em \<in> set (fst (disconnect s i sk))"
    by (simp add: fst_on_error fst_disconnect)
  then show ?thesis
  proof
    assume "em = ([i], status ''unauthorized'')"
    with live j show ?thesis by simp
  next
    assume "em \<in> set (fst (disconnect s i sk))"
    from disconnect_live [OF this] j show ?thesis by (auto simp: live_only_def)
  qed
qed

lemma handle_live:
  assumes em: "em \<in> set (fst (handle s i sk e))" and live: "sockets s i = Some sk"
    and j: "j \<in> set (fst em) \<or> j \<in> set (payload_ids (snd em))"
  shows "sockets s j \<noteq> None \<or> sockets (snd (handle s i sk e)) j \<noteq> None"
proof (cases e)
  case (JoinRoom r a)
  let ?s' = "snd (on_join_room s i sk r a)"
  have i: "sockets ?s' i \<noteq> None" by (simp add: sockets_on_join_room)
  from em JoinRoom
  have "em = (in_room ?s' r, online_users (obj_entries (presence ?s' r))) \<or>
        em = (in_room ?s' r, user_joined a i (presence ?s' r))"
    by (auto simp: fst_on_join_room)
  with live_only_online_users [of ?s' r] live_only_user_joined [OF i, of r a]
  have "live_only ?s' em" by auto
  with j JoinRoom show ?thesis by (auto simp: live_only_def)
next
  case (ErrorEvent m)
  show ?thesis
  proof (cases "m = Some ''unauthorized''")
    case True
    with em ErrorEvent have "em \<in> set (fst (on_error s i sk))" by simp
    from on_error_live [OF this live j] ErrorEvent True show ?thesis
      by (simp add: snd_on_error)
  next
    case False
    with em ErrorEvent show ?thesis by simp
  qed
qed (use em j to_room_live in auto)

text \<open>
  Whatever happens, an emission reaches sockets connected before or after the event only,
  and the socket ids in its payload are ids of such sockets.
\<close>

lemma step_live:
  assumes em: "em \<in> set (fst (step v s ev))"
    and j: "j \<in> set (fst em) \<or> j \<in> set (payload_ids (snd em))"
  shows "sockets s j \<noteq> None \<or> sockets (snd (step v s ev)) j \<noteq> None"
proof (cases ev)
  case (Connect i tok)
  with em show ?thesis by (simp split: option.splits)
next
  case (Inbound i e)
  show ?thesis
  proof (cases "sockets s i")
    case None
    with em Inbound show ?thesis by simp
  next
    case (Some sk)
    show ?thesis
    proof (cases "authorized v sk")
      case True
      with em Inbound Some have "em \<in> set (fst (handle s i sk e))" by simp
      from handle_live [OF this Some j] Inbound Some True show ?thesis by simp
    next
      case False
      with em Inbound Some
      have "em = ([i], status ''unauthorized'') \<or> em \<in> set (fst (disconnect s i sk))"
        by (simp add: fst_on_error fst_disconnect)
      then show ?thesis
      proof
        assume "em = ([i], status ''unauthorized'')"
        with Some j show ?thesis by simp
      next
        assume "em \<in> set (fst (disconnect s i sk))"
        from disconnect_live [OF this] j have "sockets (onclose s i) j \<noteq> None"
          by (auto simp: live_only_def)
        with Inbound Some False show ?thesis by (simp add: snd_on_error)
      qed
    qed
  qed
next
  case (Close i)
  show ?thesis
  proof (cases "sockets s i")
    case None
    with em Close show ?thesis by simp
  next
    case (Some sk)
    with em Close have "em \<in> set (fst (disconnect s i sk))" by simp
    from disconnect_live [OF this] j have "sockets (onclose s i) j \<noteq> None"
      by (auto simp: live_only_def)
    with Close Some show ?thesis by (simp add: snd_disconnect)
  qed
qed


subsection \<open>What every run keeps\<close>


lemma set_addAll: "set (addAll i r rs r') = (if r' = r then insert i (set (rs r)) else set (rs r'))"
  by (auto simp: addAll_def)




lemma snd_handle:
  "snd (handle s i sk e) =
     (case e of
        JoinRoom r a \<Rightarrow> snd (on_join_room s i sk r a)
      | ErrorEvent m \<Rightarrow> if m = Some ''unauthorized'' then onclose s i else s
      | _ \<Rightarrow> s)"
  by (cases e) (simp_all add: snd_on_error)



lemma dead_step:
  assumes "sockets s c = None" and "\<forall>tok. ev \<noteq> Connect c tok"
  shows "sockets (snd (step v s ev)) c = None"
proof (cases ev)
  case (Connect i tok)
  with assms show ?thesis by (auto simp: onconnect_def split: option.splits)
next
  case (Inbound i e)
  with assms show ?thesis
    by (auto simp: snd_handle snd_on_error sockets_onclose sockets_on_join_room
        split: option.splits inbound.splits)
next
  case (Close i)
  with assms show ?thesis by (simp add: snd_disconnect sockets_onclose split: option.splits)
qed

text \<open>
  A socket that is not connected, and does not connect again, stays out of every
  emission: it receives nothing and no payload names its id.
\<close>

lemma dead_run:
  assumes "sockets s c = None" and "\<forall>ve \<in> set ves. \<forall>tok. snd ve \<noteq> Connect c tok"
  shows "sockets (snd (run s ves)) c = None \<and>
         (\<forall>em \<in> set (fst (run s ves)). c \<notin> set (fst em) \<and> c \<notin> set (payload_ids (snd em)))"
  using assms
proof (induction ves arbitrary: s)
  case Nil
  then show ?case by simp
next
  case (Cons ve ves)
  let ?s1 = "snd (step (fst ve) s (snd ve))"
  from Cons.prems have nc: "\<forall>tok. snd ve \<noteq> Connect c tok" by simp
  from dead_step [OF Cons.prems(1) nc] have d1: "sockets ?s1 c = None" .
  from Cons.prems have "\<forall>ve \<in> set ves. \<forall>tok. snd ve \<noteq> Connect c tok" by simp
  from Cons.IH [OF d1 this]
  have ih: "sockets (snd (run ?s1 ves)) c = None"
    "\<forall>em \<in> set (fst (run ?s1 ves)). c \<notin> set (fst em) \<and> c \<notin> set (payload_ids (snd em))"
    by simp_all
  have "\<forall>em \<in> set (fst (step (fst ve) s (snd ve))).
          c \<notin> set (fst em) \<and> c \<notin> set (payload_ids (snd em))"
    using step_live [of _ "fst ve" s "snd ve" c] Cons.prems(1) d1 by blast
  with ih show ?case by auto
qed


subsection \<open>What a connection receives; the middleware\<close>

lemma received_Nil: "\<forall>em \<in> set ems. c \<notin> set (fst em) \<Longrightarrow> received c ems = []"
  by (simp add: received_def filter_empty_conv)

lemma received_Cons:
  "received c (em # ems) = (if c \<in> set (fst em) then snd em # received c ems else received c ems)"
  by (simp add: received_def)

lemma received_disconnect: "received c (on_disconnect (onclose s c) sk) = []"
proof (rule received_Nil, rule ballI)
  fix em assume "em \<in> set (on_disconnect (onclose s c) sk)"
  then have "em \<in> set (fst (disconnect s c sk))" by (simp add: fst_disconnect)
  from disconnect_live [OF this] show "c \<notin> set (fst em)"
    by (auto simp: live_only_def sockets_onclose)
qed

lemma not_authorized_iff:
  "\<not> authorized verify sk \<longleftrightarrow>
     token sk = None \<or> token sk = Some [] \<or> (\<exists>t. token sk = Some t \<and> \<not> verify t)"
  by (auto simp: authorized_def split: option.splits)

lemma unauthorized_step:
  assumes "sockets s c = Some sk" and "\<not> authorized verify sk"
  shows "step verify s (Inbound c e) =
           (([c], status ''unauthorized'') # on_disconnect (onclose s c) sk, onclose s c)"
  using assms by (simp add: on_error_def disconnect_def Let_def)

subsection \<open>Relays through \<^verbatim>\<open>socket.to\<close>\<close>



lemma to_room_iff:
  "j \<in> set (to_room s c r) \<longleftrightarrow> j \<in> set (in_room s r) \<and> j \<notin> set (rooms s c)"
  by (auto simp: to_room_alt in_room_alt)


subsection \<open>Joining a second room\<close>

lemma in_room_on_join_room_other:
  assumes "sockets s c = Some sk" and "r' \<noteq> r"
  shows "in_room (snd (on_join_room s c sk r' a)) r = in_room s r"
  using assms
  by (auto simp: in_room_alt sockets_on_join_room rooms_on_join_room addAll_def
      intro: filter_cong)

lemma author_of_on_join_room:
  "author_of (snd (on_join_room s c sk r a)) j = (if j = c then Some a else author_of s j)"
  by (simp add: author_of_def sockets_on_join_room)

lemma in_room_on_join_room_new:
  assumes "sockets s c = Some sk" and "c \<notin> set (rooms s r)"
  shows "in_room (snd (on_join_room s c sk r a)) r = in_room s r @ [c]"
proof -
  have "[i \<leftarrow> rooms s r. i \<noteq> c \<longrightarrow> sockets s i \<noteq> None]
          = [i \<leftarrow> rooms s r. sockets s i \<noteq> None]"
    using assms(2) by (intro filter_cong) auto
  with assms show ?thesis
    by (simp add: in_room_alt sockets_on_join_room rooms_on_join_room addAll_def)
qed

lemma not_in_rooms:
  assumes "sockets s c2 = Some sk2" and "in_room s r = [c1]" and "c1 \<noteq> c2"
  shows "c2 \<notin> set (rooms s r)"
proof
  assume "c2 \<in> set (rooms s r)"
  with assms(1) have "c2 \<in> set (in_room s r)" by (simp add: in_room_alt)
  with assms(2,3) show False by simp
qed

lemma distinct_map_fst_obj_entries:
  "distinct (map fst ob) \<Longrightarrow> distinct (map fst (obj_entries ob))"
  by (auto simp: obj_entries_def distinct_map inj_on_def)

lemma presence_last:
  assumes "a \<noteq> []" and "a \<noteq> ''__proto__''"
    and "[j \<leftarrow> in_room s r. author_of s j = Some a] \<noteq> []"
  shows "(a, last [j \<leftarrow> in_room s r. author_of s j = Some a]) \<in> set (presence s r)"
proof -
  from assms
  have "map_of (presence s r) a = Some (last [j \<leftarrow> in_room s r. author_of s j = Some a])"
    by (simp add: presence_def map_of_forEach_users)
  then show ?thesis by (rule map_of_SomeD)
qed

subsection \<open>The presence entries of an emission\<close>

lemma disconnect_users:
  assumes em: "em \<in> set (fst (disconnect s i sk))"
    and u: "(a, j) \<in> set (payload_users (snd em))"
  shows "a \<noteq> [] \<and> author_of (onclose s i) j = Some a \<and> j \<in> set (fst em)"
proof (cases "data_room sk = None \<or> data_room sk = Some []")
  case True
  with em show ?thesis by (simp add: fst_disconnect on_disconnect_none)
next
  case False
  then obtain r where r: "data_room sk = Some r" "r \<noteq> []" by auto
  let ?s' = "onclose s i"
  from em on_disconnect_eq [OF r, of ?s']
  have "em = (in_room ?s' r, online_users (obj_entries (presence ?s' r))) \<or>
        em = (in_room ?s' r, user_left (data_author sk) (presence ?s' r))"
    by (auto simp: fst_disconnect)
  with u have "(a, j) \<in> set (presence ?s' r) \<and> fst em = in_room ?s' r"
    by (auto simp: set_obj_entries)
  with presence_entry [of a j ?s' r] show ?thesis by simp
qed

lemma handle_users:
  assumes em: "em \<in> set (fst (handle s i sk e))"
    and u: "(a, j) \<in> set (payload_users (snd em))"
  shows "a \<noteq> [] \<and> author_of (snd (handle s i sk e)) j = Some a \<and> j \<in> set (fst em)"
proof (cases e)
  case (JoinRoom r b)
  let ?s' = "snd (on_join_room s i sk r b)"
  from em JoinRoom
  have "em = (in_room ?s' r, online_users (obj_entries (presence ?s' r))) \<or>
        em = (in_room ?s' r, user_joined b i (presence ?s' r))"
    by (auto simp: fst_on_join_room)
  with u have "(a, j) \<in> set (presence ?s' r) \<and> fst em = in_room ?s' r"
    by (auto simp: set_obj_entries)
  with presence_entry [of a j ?s' r] JoinRoom show ?thesis by simp
next
  case (ErrorEvent m)
  show ?thesis
  proof (cases "m = Some ''unauthorized''")
    case True
    with em ErrorEvent
    have "em = ([i], status ''unauthorized'') \<or> em \<in> set (fst (disconnect s i sk))"
      by (simp add: fst_on_error fst_disconnect)
    then show ?thesis
    proof
      assume "em = ([i], status ''unauthorized'')"
      with u show ?thesis by simp
    next
      assume "em \<in> set (fst (disconnect s i sk))"
      from disconnect_users [OF this u] ErrorEvent True show ?thesis
        by (simp add: snd_on_error)
    qed
  next
    case False
    with em ErrorEvent show ?thesis by simp
  qed
qed (use em u in auto)

lemma step_users:
  assumes em: "em \<in> set (fst (step v s ev))"
    and u: "(a, j) \<in> set (payload_users (snd em))"
  shows "a \<noteq> [] \<and> author_of (snd (step v s ev)) j = Some a \<and> j \<in> set (fst em)"
proof (cases ev)
  case (Connect i tok)
  with em show ?thesis by (simp split: option.splits)
next
  case (Inbound i e)
  show ?thesis
  proof (cases "sockets s i")
    case None
    with em Inbound show ?thesis by simp
  next
    case (Some sk)
    show ?thesis
    proof (cases "authorized v sk")
      case True
      with em Inbound Some have "em \<in> set (fst (handle s i sk e))" by simp
      from handle_users [OF this u] Inbound Some True show ?thesis by simp
    next
      case False
      with em Inbound Some
      have "em = ([i], status ''unauthorized'') \<or> em \<in> set (fst (disconnect s i sk))"
        by (simp add: fst_on_error fst_disconnect)
      then show ?thesis
      proof
        assume "em = ([i], status ''unauthorized'')"
        with u show ?thesis by simp
      next
        assume "em \<in> set (fst (disconnect s i sk))"
        from disconnect_users [OF this u] Inbound Some False show ?thesis
          by (simp add: snd_on_error)
      qed
    qed
  qed
next
  case (Close i)
  show ?thesis
  proof (cases "sockets s i")
    case None
    with em Close show ?thesis by simp
  next
    case (Some sk)
    with em Close have "em \<in> set (fst (disconnect s i sk))" by simp
    from disconnect_users [OF this u] Close Some show ?thesis by (simp add: snd_disconnect)
  qed
qed

subsection \<open>One packet at a time\<close>

lemma forEach_users_cong:
  "(\<And>j. j \<in> set cl \<Longrightarrow> author_of s j = author_of s' j) \<Longrightarrow>
     forEach_users s cl u = forEach_users s' cl u"
  by (induction cl arbitrary: u) simp_all

lemma author_of_objects:
  "author_of (objects n) j =
     (case sockets (srv n) j of
        None \<Rightarrow> (case closed n j of None \<Rightarrow> None | Some sk \<Rightarrow> data_author sk)
      | Some sk \<Rightarrow> data_author sk)"
  by (simp add: author_of_def objects_def split: option.splits)

lemma author_of_objects_live:
  "sockets (srv n) j \<noteq> None \<Longrightarrow> author_of (objects n) j = author_of (srv n) j"
  by (auto simp: author_of_def objects_def)

lemma presence_objects: "forEach_users (objects n) (in_room (srv n) r) [] = presence (srv n) r"
  unfolding presence_def
  by (rule forEach_users_cong) (simp add: author_of_objects_live in_room_live)

lemma snd_on_join_room: "snd (on_join_room s i sk r a) = joined s i sk r a"
  by (simp add: on_join_room_def joined_def Let_def)

lemma resume_join_fresh:
  "srv n = s \<Longrightarrow>
     resume_cont n (AfterJoin a i r (in_room s r)) =
       [(in_room s r, online_users (obj_entries (presence s r))),
        (in_room s r, user_joined a i (presence s r))]"
  using presence_objects [of n r] by (simp add: Let_def)

lemma resume_close_fresh:
  "srv n = s \<Longrightarrow>
     resume_cont n (AfterClose a r (in_room s r)) =
       [(in_room s r, online_users (obj_entries (presence s r))),
        (in_room s r, user_left a (presence s r))]"
  using presence_objects [of n r] by (simp add: Let_def)

lemma exec_Arrive_live:
  "sockets (srv n) i = Some sk \<Longrightarrow>
     exec n (Arrive v i e) =
       ([], n\<lparr>ticks := ticks n @ [if authorized v sk then Emit i e else Onerror i]\<rparr>)"
  by simp

lemma exec_Arrive_gone: "sockets (srv n) i = None \<Longrightarrow> exec n (Arrive v i e) = ([], n)"
  by simp

lemma socket_onclose_gone: "sockets (srv n) i = None \<Longrightarrow> socket_onclose n i = n"
  by (simp add: socket_onclose_def)

lemma srv_socket_onclose:
  "sockets (srv n) i = Some sk \<Longrightarrow> srv (socket_onclose n i) = onclose (srv n) i"
  by (simp add: socket_onclose_def)

lemma ticks_socket_onclose: "ticks (socket_onclose n i) = ticks n"
  by (simp add: socket_onclose_def split: option.splits)

text \<open>A socket that closes while nothing is suspended: what its handler emits when resumed.\<close>

lemma close_then_resume:
  assumes live: "sockets (srv n) i = Some sk" and c: "conts n = []"
  shows "fst (exec (socket_onclose n i) Resume) = on_disconnect (onclose (srv n) i) sk \<and>
         srv (snd (exec (socket_onclose n i) Resume)) = onclose (srv n) i \<and>
         ticks (snd (exec (socket_onclose n i) Resume)) = ticks n \<and>
         conts (snd (exec (socket_onclose n i) Resume)) = []"
proof (cases "data_room sk = None \<or> data_room sk = Some []")
  case True
  with live c show ?thesis
    by (auto simp: socket_onclose_def on_disconnect_none)
next
  case False
  then obtain r where r: "data_room sk = Some r" "r \<noteq> []" by auto
  let ?n1 = "socket_onclose n i"
  have s1: "srv ?n1 = onclose (srv n) i" by (rule srv_socket_onclose [OF live])
  have c1: "conts ?n1 = [AfterClose (data_author sk) r (in_room (onclose (srv n) i) r)]"
    using live c r by (simp add: socket_onclose_def)
  show ?thesis
    using resume_close_fresh [OF s1, of "data_author sk" r]
    by (simp add: c1 s1 ticks_socket_onclose on_disconnect_eq [OF r])
qed

lemma alone_Close:
  assumes t: "ticks n = []" and c: "conts n = []"
  shows "fst (execs n [Shut i, Resume]) = fst (step v (srv n) (Close i)) \<and>
         srv (snd (execs n [Shut i, Resume])) = snd (step v (srv n) (Close i)) \<and>
         ticks (snd (execs n [Shut i, Resume])) = [] \<and>
         conts (snd (execs n [Shut i, Resume])) = []"
proof (cases "sockets (srv n) i")
  case None
  with t c show ?thesis by (simp add: socket_onclose_gone)
next
  case (Some sk)
  from close_then_resume [OF Some c] t Some show ?thesis
    by (simp add: fst_disconnect snd_disconnect)
qed

lemma listener_then_resume:
  assumes live: "sockets (srv n) i = Some sk" and c: "conts n = []"
  shows "fst (listener n i) @ fst (exec (snd (listener n i)) Resume) = fst (on_error (srv n) i sk) \<and>
         srv (snd (exec (snd (listener n i)) Resume)) = snd (on_error (srv n) i sk) \<and>
         ticks (snd (exec (snd (listener n i)) Resume)) = ticks n \<and>
         conts (snd (exec (snd (listener n i)) Resume)) = []"
  using close_then_resume [OF live c]
  by (simp add: listener_def fst_on_error snd_on_error)

lemma start_then_resume:
  assumes live: "sockets (srv n) i = Some sk" and c: "conts n = []"
  shows "fst (start n i sk e) @ fst (exec (snd (start n i sk e)) Resume) = fst (handle (srv n) i sk e) \<and>
         srv (snd (exec (snd (start n i sk e)) Resume)) = snd (handle (srv n) i sk e) \<and>
         ticks (snd (exec (snd (start n i sk e)) Resume)) = ticks n \<and>
         conts (snd (exec (snd (start n i sk e)) Resume)) = []"
proof (cases e)
  case (JoinRoom r a)
  let ?s2 = "joined (srv n) i sk r a"
  let ?n1 = "n\<lparr>srv := ?s2, conts := conts n @ [AfterJoin a i r (in_room ?s2 r)]\<rparr>"
  have "srv ?n1 = ?s2" by simp
  from resume_join_fresh [OF this, of a i r] c JoinRoom show ?thesis
    by (simp add: fst_on_join_room snd_on_join_room)
next
  case (ErrorEvent m)
  with listener_then_resume [OF live c] c show ?thesis by simp
qed (use c in simp_all)

text \<open>
  A packet that is read while nothing is pending, and whose task and continuation run
  before anything else happens, is handled as \<open>step\<close> says.
\<close>

lemma alone_Inbound:
  assumes t: "ticks n = []" and c: "conts n = []"
  shows "fst (execs n [Arrive v i e, Tick, Resume]) = fst (step v (srv n) (Inbound i e)) \<and>
         srv (snd (execs n [Arrive v i e, Tick, Resume])) = snd (step v (srv n) (Inbound i e)) \<and>
         ticks (snd (execs n [Arrive v i e, Tick, Resume])) = [] \<and>
         conts (snd (execs n [Arrive v i e, Tick, Resume])) = []"
proof (cases "sockets (srv n) i")
  case None
  with t c show ?thesis by simp
next
  case (Some sk)
  show ?thesis
  proof (cases "authorized v sk")
    case True
    let ?n0 = "n\<lparr>ticks := []\<rparr>"
    have l: "sockets (srv ?n0) i = Some sk" and c0: "conts ?n0 = []" using Some c by simp_all
    from start_then_resume [OF l c0, of e] Some True t show ?thesis by simp
  next
    case False
    let ?n0 = "n\<lparr>ticks := []\<rparr>"
    have l: "sockets (srv ?n0) i = Some sk" and c0: "conts ?n0 = []" using Some c by simp_all
    from listener_then_resume [OF l c0] Some False t show ?thesis by simp
  qed
qed

subsection \<open>Rejected packets\<close>

lemma execs_append:
  "execs n (as @ bs) =
     (fst (execs n as) @ fst (execs (snd (execs n as)) bs), snd (execs (snd (execs n as)) bs))"
  by (induction as arbitrary: n) simp_all

lemma socket_onclose_ticks:
  "(socket_onclose m c)\<lparr>ticks := ts\<rparr> = socket_onclose (m\<lparr>ticks := ts\<rparr>) c"
  by (simp add: socket_onclose_def split: option.splits)

lemma sockets_socket_onclose: "sockets (srv (socket_onclose m c)) c = None"
  by (simp add: socket_onclose_def sockets_onclose split: option.splits)

lemma arrive_rejected:
  assumes "sockets (srv n) c = Some sk" and "\<not> authorized v sk"
  shows "execs n (map (Arrive v c) es) =
           ([], n\<lparr>ticks := ticks n @ replicate (length es) (Onerror c)\<rparr>)"
  using assms
proof (induction es arbitrary: n)
  case Nil
  show ?case by simp
next
  case (Cons e es)
  let ?n1 = "n\<lparr>ticks := ticks n @ [Onerror c]\<rparr>"
  have 1: "exec n (Arrive v c e) = ([], ?n1)" using Cons.prems by simp
  have "sockets (srv ?n1) c = Some sk" using Cons.prems by simp
  from Cons.IH [OF this Cons.prems(2)]
  have "execs ?n1 (map (Arrive v c) es) =
          ([], ?n1\<lparr>ticks := ticks ?n1 @ replicate (length es) (Onerror c)\<rparr>)" .
  then show ?case by (simp add: 1 replicate_append_same del: exec.simps)
qed

lemma listeners_of_closed:
  assumes "sockets (srv m) c = None" and "ticks m = replicate k (Onerror c)"
  shows "execs m (replicate k Tick) =
           (replicate k ([c], status ''unauthorized''), m\<lparr>ticks := []\<rparr>)"
  using assms
proof (induction k arbitrary: m)
  case 0
  then show ?case by simp
next
  case (Suc k)
  let ?m1 = "m\<lparr>ticks := replicate k (Onerror c)\<rparr>"
  have 1: "exec m Tick = ([([c], status ''unauthorized'')], ?m1)"
    using Suc.prems by (simp add: listener_def socket_onclose_gone)
  have "sockets (srv ?m1) c = None" "ticks ?m1 = replicate k (Onerror c)"
    using Suc.prems by simp_all
  from Suc.IH [OF this]
  have "execs ?m1 (replicate k Tick) =
          (replicate k ([c], status ''unauthorized''), ?m1\<lparr>ticks := []\<rparr>)" .
  then show ?case by (simp add: 1 del: exec.simps)
qed

lemma received_replicate:
  "received c (replicate k ([c], ev) @ ems) = replicate k ev @ received c ems"
  by (induction k) (simp_all add: received_def)

lemma rejected_together:
  assumes live: "sockets (srv n) c = Some sk" and na: "\<not> authorized v sk"
    and t: "ticks n = []" and k: "conts n = []" and es: "es \<noteq> []"
  shows "fst (execs n (map (Arrive v c) es @ replicate (length es) Tick @ [Resume])) =
           replicate (length es) ([c], status ''unauthorized'') @
           on_disconnect (onclose (srv n) c) sk \<and>
         srv (snd (execs n (map (Arrive v c) es @ replicate (length es) Tick @ [Resume]))) =
           onclose (srv n) c"
proof -
  from es obtain j where j: "length es = Suc j" by (cases es) auto
  let ?n1 = "n\<lparr>ticks := replicate (Suc j) (Onerror c)\<rparr>"
  let ?n2 = "socket_onclose (n\<lparr>ticks := replicate j (Onerror c)\<rparr>) c"
  let ?n3 = "socket_onclose n c"
  have a: "execs n (map (Arrive v c) es) = ([], ?n1)"
    using arrive_rejected [OF live na, of es] t j by simp
  have b: "exec ?n1 Tick = ([([c], status ''unauthorized'')], ?n2)"
    by (simp add: listener_def)
  have n2: "sockets (srv ?n2) c = None" "ticks ?n2 = replicate j (Onerror c)"
    by (simp_all add: sockets_socket_onclose ticks_socket_onclose)
  have nn: "n\<lparr>ticks := []\<rparr> = n" unfolding t [symmetric] by simp
  have c: "execs ?n2 (replicate j Tick) = (replicate j ([c], status ''unauthorized''), ?n3)"
    using listeners_of_closed [OF n2] by (simp add: socket_onclose_ticks nn)
  have d: "execs ?n1 (replicate (Suc j) Tick) =
             (replicate (Suc j) ([c], status ''unauthorized''), ?n3)"
    using b c by (simp del: exec.simps)
  from close_then_resume [OF live k]
  have e: "fst (exec ?n3 Resume) = on_disconnect (onclose (srv n) c) sk"
    "srv (snd (exec ?n3 Resume)) = onclose (srv n) c" by simp_all
  show ?thesis
    unfolding execs_append a j using d e by (simp del: exec.simps replicate.simps)
qed


lemma resume_cont_live:
  "em \<in> set (resume_cont m k) \<Longrightarrow> j \<in> set (fst em) \<Longrightarrow> sockets (srv m) j \<noteq> None"
  by (cases k) (auto simp: Let_def dest: in_room_live)

lemma start_reaches:
  assumes "em \<in> set (fst (start m i sk e))" and "j \<in> set (fst em)"
    and "sockets (srv m) i = Some sk"
  shows "sockets (srv m) j \<noteq> None"
  using assms by (cases e) (auto simp: listener_def dest: to_room_live split: if_splits)

text \<open>The one thing a closed socket is still sent: the answer to a rejected packet.\<close>

lemma closed_receives:
  assumes gone: "sockets (srv m) c = None"
    and em: "em \<in> set (fst (exec m a))" and c: "c \<in> set (fst em)"
  shows "em = ([c], status ''unauthorized'') \<and> a = Tick \<and> (\<exists>ts. ticks m = Onerror c # ts)"
proof (cases a)
  case (Arrive v i e)
  with em show ?thesis by (simp split: option.splits)
next
  case Tick
  show ?thesis
  proof (cases "ticks m")
    case Nil
    with em Tick show ?thesis by simp
  next
    case (Cons t ts)
    show ?thesis
    proof (cases t)
      case (Onerror i)
      with em c Tick Cons show ?thesis by (simp add: listener_def)
    next
      case (Emit i e)
      show ?thesis
      proof (cases "sockets (srv m) i")
        case None
        with em Tick Cons Emit show ?thesis by simp
      next
        case (Some sk)
        let ?m1 = "m\<lparr>ticks := ts\<rparr>"
        from em Tick Cons Emit Some have "em \<in> set (fst (start ?m1 i sk e))" by simp
        from start_reaches [OF this c] Some gone show ?thesis by simp
      qed
    qed
  qed
next
  case Resume
  show ?thesis
  proof (cases "conts m")
    case Nil
    with em Resume show ?thesis by simp
  next
    case (Cons k ks)
    with em Resume have "em \<in> set (resume_cont m k)" by simp
    from resume_cont_live [OF this c] gone show ?thesis by simp
  qed
next
  case (Open i tok)
  with em show ?thesis by (simp split: option.splits)
next
  case (Shut i)
  with em show ?thesis by simp
qed

lemma token_socket_onclose:
  "sockets (srv (socket_onclose m i)) c = Some sk2 \<Longrightarrow> sockets (srv m) c = Some sk2"
  by (auto simp: socket_onclose_def sockets_onclose split: option.splits if_splits)

lemma token_start:
  assumes "sockets (srv m) i = Some sk" and "sockets (srv m) c = Some sk1"
    and "sockets (srv (snd (start m i sk e))) c = Some sk2"
  shows "token sk2 = token sk1"
  using assms
  by (cases e) (auto simp: joined_def listener_def dest: token_socket_onclose split: if_splits)

text \<open>No step changes the handshake token of a socket that stays connected.\<close>

lemma token_exec:
  assumes 1: "sockets (srv m) c = Some sk1" and 2: "sockets (srv (snd (exec m a))) c = Some sk2"
  shows "token sk2 = token sk1"
proof (cases a)
  case (Arrive v i e)
  with 1 2 show ?thesis by (auto split: option.splits)
next
  case Tick
  show ?thesis
  proof (cases "ticks m")
    case Nil
    with 1 2 Tick show ?thesis by simp
  next
    case (Cons t ts)
    show ?thesis
    proof (cases t)
      case (Onerror i)
      with 2 Tick Cons have "sockets (srv (socket_onclose (m\<lparr>ticks := ts\<rparr>) i)) c = Some sk2"
        by (simp add: listener_def)
      from token_socket_onclose [OF this] 1 show ?thesis by simp
    next
      case (Emit i e)
      show ?thesis
      proof (cases "sockets (srv m) i")
        case None
        with 1 2 Tick Cons Emit show ?thesis by simp
      next
        case (Some sk)
        let ?m1 = "m\<lparr>ticks := ts\<rparr>"
        have a: "sockets (srv ?m1) i = Some sk" "sockets (srv ?m1) c = Some sk1"
          using Some 1 by simp_all
        from 2 Tick Cons Emit Some
        have "sockets (srv (snd (start ?m1 i sk e))) c = Some sk2" by simp
        from token_start [OF a this] show ?thesis .
      qed
    qed
  qed
next
  case Resume
  with 1 2 show ?thesis by (auto split: list.splits)
next
  case (Open i tok)
  with 1 2 show ?thesis by (auto simp: onconnect_def split: option.splits if_splits)
next
  case (Shut i)
  with 2 have "sockets (srv (socket_onclose m i)) c = Some sk2" by simp
  from token_socket_onclose [OF this] 1 show ?thesis by simp
qed

subsection \<open>A listed connection\<close>

lemma listed_in_room: "listed c r a sk m \<Longrightarrow> c \<in> set (in_room (srv m) r)"
  by (auto simp: listed_def in_room_alt)

lemma listed_ticks:
  "listed c r a sk m \<Longrightarrow> list_all (calm_task c) ts \<Longrightarrow> listed c r a sk (m\<lparr>ticks := ts\<rparr>)"
  by (simp add: listed_def)

lemma listed_conts:
  "listed c r a sk m \<Longrightarrow> list_all (\<lambda>k. cont_room k \<noteq> r \<or> c \<in> set (cont_clients k)) ks \<Longrightarrow>
     listed c r a sk (m\<lparr>conts := ks\<rparr>)"
  by (simp add: listed_def)

lemma listed_socket_onclose:
  assumes l: "listed c r a sk m" and i: "i \<noteq> c"
  shows "listed c r a sk (socket_onclose m i)"
proof (cases "sockets (srv m) i")
  case None
  with l show ?thesis by (simp add: socket_onclose_gone)
next
  case (Some ski)
  from l i have c: "c \<in> set (in_room (onclose (srv m) i) r)"
    by (auto simp: listed_def in_room_alt sockets_onclose rooms_onclose)
  have k: "list_all (\<lambda>k. cont_room k \<noteq> r \<or> c \<in> set (cont_clients k))
             (case data_room ski of
                None \<Rightarrow> []
              | Some r' \<Rightarrow>
                  if r' = [] then []
                  else [AfterClose (data_author ski) r' (in_room (onclose (srv m) i) r')])"
    using c by (simp split: option.splits)
  from l i have s: "sockets (onclose (srv m) i) c = sockets (srv m) c"
    "c \<in> set (rooms (onclose (srv m) i) r)"
    by (simp_all add: listed_def sockets_onclose rooms_onclose)
  from l s k Some show ?thesis
    by (simp add: listed_def socket_onclose_def)
qed

lemma listed_joined_other:
  assumes l: "listed c r a sk m" and i: "i \<noteq> c"
  shows "listed c r a sk
           (m\<lparr>srv := joined (srv m) i ski r' a',
              conts := conts m @ [AfterJoin a' i r' (in_room (joined (srv m) i ski r' a') r')]\<rparr>)"
proof -
  let ?s2 = "joined (srv m) i ski r' a'"
  from l i have s: "sockets ?s2 c = sockets (srv m) c" "c \<in> set (rooms ?s2 r)"
    by (auto simp: listed_def joined_def set_addAll)
  with l have "c \<in> set (in_room ?s2 r)" by (auto simp: listed_def in_room_alt)
  with l s show ?thesis by (auto simp: listed_def)
qed

lemma listed_start:
  assumes l: "listed c r a sk m" and live: "sockets (srv m) i = Some ski"
    and calm: "i \<noteq> c \<or> calm_event e"
  shows "listed c r a sk (snd (start m i ski e))"
proof (cases e)
  case (JoinRoom r' a')
  with calm have "i \<noteq> c" by auto
  from listed_joined_other [OF l this] JoinRoom show ?thesis by simp
next
  case (ErrorEvent x)
  show ?thesis
  proof (cases "x = Some ''unauthorized''")
    case True
    with calm ErrorEvent have "i \<noteq> c" by auto
    from listed_socket_onclose [OF l this] ErrorEvent True show ?thesis
      by (simp add: listener_def)
  next
    case False
    with l ErrorEvent show ?thesis by simp
  qed
qed (use l in simp_all)

text \<open>Every step that leaves the connection and its author alone keeps it listed.\<close>

lemma listed_exec:
  assumes l: "listed c r a sk m" and calm: "calm_act c sk x"
  shows "listed c r a sk (snd (exec m x))"
proof (cases x)
  case (Arrive v i e)
  show ?thesis
  proof (cases "sockets (srv m) i")
    case None
    with l Arrive show ?thesis by simp
  next
    case (Some ski)
    have "calm_task c (if authorized v ski then Emit i e else Onerror i)"
    proof (cases "i = c")
      case True
      with l Some have "token ski = token sk" by (auto simp: listed_def)
      with calm Arrive True show ?thesis by (simp add: authorized_def)
    next
      case False
      then show ?thesis by simp
    qed
    with l have "listed c r a sk
        (m\<lparr>ticks := ticks m @ [if authorized v ski then Emit i e else Onerror i]\<rparr>)"
      by (intro listed_ticks) (simp_all add: listed_def)
    with Arrive Some show ?thesis by simp
  qed
next
  case Tick
  show ?thesis
  proof (cases "ticks m")
    case Nil
    with l Tick show ?thesis by simp
  next
    case (Cons t ts)
    with l have ct: "calm_task c t" and l1: "listed c r a sk (m\<lparr>ticks := ts\<rparr>)"
      by (simp_all add: listed_def)
    show ?thesis
    proof (cases t)
      case (Onerror i)
      with ct have "i \<noteq> c" by simp
      from listed_socket_onclose [OF l1 this] Tick Cons Onerror show ?thesis
        by (simp add: listener_def)
    next
      case (Emit i e)
      show ?thesis
      proof (cases "sockets (srv m) i")
        case None
        with l1 Tick Cons Emit show ?thesis by simp
      next
        case (Some ski)
        then have "sockets (srv (m\<lparr>ticks := ts\<rparr>)) i = Some ski" by simp
        from listed_start [OF l1 this, of e] ct Emit Tick Cons Some show ?thesis by simp
      qed
    qed
  qed
next
  case Resume
  show ?thesis
  proof (cases "conts m")
    case Nil
    with l Resume show ?thesis by simp
  next
    case (Cons k ks)
    with l have "listed c r a sk (m\<lparr>conts := ks\<rparr>)" by (simp add: listed_def)
    with Resume Cons show ?thesis by simp
  qed
next
  case (Open i tok)
  show ?thesis
  proof (cases "sockets (srv m) i = None \<and> closed m i = None")
    case True
    with l have "i \<noteq> c" by (auto simp: listed_def)
    then have "sockets (onconnect (srv m) i tok) c = sockets (srv m) c"
      "c \<in> set (rooms (srv m) r) \<Longrightarrow> c \<in> set (rooms (onconnect (srv m) i tok) r)"
      by (auto simp: onconnect_def set_addAll)
    with l True Open show ?thesis by (simp add: listed_def)
  next
    case False
    with l Open show ?thesis by (auto split: option.splits)
  qed
next
  case (Shut i)
  with calm have "i \<noteq> c" by simp
  from listed_socket_onclose [OF l this] Shut show ?thesis by simp
qed

lemma listed_execs:
  "listed c r a sk m \<Longrightarrow> list_all (calm_act c sk) xs \<Longrightarrow> listed c r a sk (snd (execs m xs))"
  by (induction xs arbitrary: m) (simp_all add: listed_exec del: exec.simps)

text \<open>The handler of a join, up to its \<^verbatim>\<open>await\<close>, lists the connection.\<close>

lemma join_lists:
  assumes live: "sockets (srv m) c = Some sk"
    and t: "ticks m = Emit c (JoinRoom r a) # ts"
    and ts: "list_all (calm_task c) ts"
    and ks: "list_all (\<lambda>k. cont_room k \<noteq> r \<or> c \<in> set (cont_clients k)) (conts m)"
  shows "listed c r a sk (snd (exec m Tick))"
proof -
  have "c \<in> set (in_room (joined (srv m) c sk r a) r)"
    by (simp add: in_room_alt joined_def set_addAll)
  with live t ts ks show ?thesis
    by (simp add: listed_def joined_def set_addAll)
qed


lemma users_last:
  assumes a: "a \<noteq> []" "a \<noteq> ''__proto__''"
    and c: "c \<in> set cl" and ac: "author_of s c = Some a"
  shows "(a, last [j \<leftarrow> cl. author_of s j = Some a]) \<in> set (forEach_users s cl [])"
proof -
  from c ac have "[j \<leftarrow> cl. author_of s j = Some a] \<noteq> []"
    by (auto simp: filter_empty_conv)
  with a have "map_of (forEach_users s cl []) a = Some (last [j \<leftarrow> cl. author_of s j = Some a])"
    by (simp add: map_of_forEach_users)
  then show ?thesis by (rule map_of_SomeD)
qed

lemma distinct_users: "distinct (map fst (obj_entries (forEach_users s cl [])))"
  by (simp add: distinct_map_fst_obj_entries distinct_forEach_users)

text \<open>The next broadcast for the room of a listed connection has an entry for its name.\<close>

lemma last_filter_only:
  assumes "c \<in> set xs" "P c" "\<forall>j \<in> set xs. P j \<longrightarrow> j = c"
  shows "last (filter P xs) = c"
proof -
  from assms(1,2) have ne: "filter P xs \<noteq> []" by (auto simp: filter_empty_conv)
  then have "last (filter P xs) \<in> set (filter P xs)" by (rule last_in_set)
  with assms(3) show ?thesis by simp
qed

lemma resume_lists:
  assumes l: "listed c r a sk m" and k: "conts m = k # ks" and kr: "cont_room k = r"
    and a: "a \<noteq> []" "a \<noteq> ''__proto__''"
  shows "\<exists>es ev. fst (exec m Resume) =
                   [(in_room (srv m) r, online_users es), (in_room (srv m) r, ev)] \<and>
           (a, last [j \<leftarrow> cont_clients k. author_of (objects m) j = Some a]) \<in> set es \<and>
           (a, last [j \<leftarrow> cont_clients k. author_of (objects m) j = Some a])
             \<in> set (payload_users ev) \<and>
           distinct (map fst es)"
proof -
  from l k kr have c: "c \<in> set (cont_clients k)" by (simp add: listed_def)
  from l have "sockets (srv m) c \<noteq> None" "author_of (srv m) c = Some a"
    by (auto simp: listed_def author_of_def)
  then have ac: "author_of (objects m) c = Some a" by (simp add: author_of_objects_live)
  note u = users_last [OF a c ac]
  show ?thesis
  proof (cases k)
    case (AfterJoin b i r' cl)
    with k kr u show ?thesis
      by (simp add: Let_def set_obj_entries distinct_users)
  next
    case (AfterClose b r' cl)
    with k kr u show ?thesis
      by (simp add: Let_def set_obj_entries distinct_users)
  qed
qed

lemma fresh_join_lists:
  assumes live: "sockets (srv m) c = Some sk"
    and t: "ticks m = Emit c (JoinRoom r a) # ts" and k: "conts m = []"
    and a: "a \<noteq> []" "a \<noteq> ''__proto__''" and new: "c \<notin> set (rooms (srv m) r)"
  shows "\<exists>rs es us. fst (exec (snd (exec m Tick)) Resume) =
                      [(rs, online_users es), (rs, user_joined a c us)] \<and>
           c \<in> set rs \<and> (a, c) \<in> set es \<and> (a, c) \<in> set us"
proof -
  let ?s2 = "joined (srv m) c sk r a"
  let ?m1 = "m\<lparr>ticks := ts, srv := ?s2, conts := [AfterJoin a c r (in_room ?s2 r)]\<rparr>"
  have e: "snd (exec m Tick) = ?m1" using live t k by simp
  have mem: "in_room ?s2 r = in_room (srv m) r @ [c]"
    using in_room_on_join_room_new [OF live new, of a] by (simp add: snd_on_join_room)
  have f: "[j \<leftarrow> in_room ?s2 r. author_of ?s2 j = Some a]
         = [j \<leftarrow> in_room (srv m) r. author_of ?s2 j = Some a] @ [c]"
    using author_of_on_join_room [of "srv m" c sk r a c] by (simp add: mem snd_on_join_room)
  from presence_last [OF a, of ?s2 r] have p: "(a, c) \<in> set (presence ?s2 r)"
    unfolding f by simp
  have "srv ?m1 = ?s2" by simp
  from resume_join_fresh [OF this, of a c r] p show ?thesis
    unfolding e by (simp add: mem set_obj_entries)
qed

lemma users_of_two:
  assumes "author_of s c1 = Some a1" "author_of s c2 = Some a2"
    and "a1 \<noteq> []" "a1 \<noteq> ''__proto__''" "a2 \<noteq> []" "a2 \<noteq> ''__proto__''"
  shows "forEach_users s [c1, c2] [] = (if a1 = a2 then [(a2, c2)] else [(a1, c1), (a2, c2)])"
  using assms by (simp add: obj_set_def)

lemma roster_of_two_alone:
  assumes live: "sockets s c2 = Some sk2" and ok: "authorized verify sk2"
    and room: "in_room s r = [c1]" and ne: "c1 \<noteq> c2"
    and a1: "author_of s c1 = Some a1" "a1 \<noteq> []" "a1 \<noteq> ''__proto__''"
    and a2: "a2 \<noteq> []" "a2 \<noteq> ''__proto__''"
  shows "fst (step verify s (Inbound c2 (JoinRoom r a2)))
           = [([c1, c2], online_users
                 (obj_entries (if a1 = a2 then [(a2, c2)] else [(a1, c1), (a2, c2)]))),
              ([c1, c2], user_joined a2 c2
                 (if a1 = a2 then [(a2, c2)] else [(a1, c1), (a2, c2)]))]"
proof -
  let ?s' = "snd (on_join_room s c2 sk2 r a2)"
  have st: "step verify s (Inbound c2 (JoinRoom r a2)) = on_join_room s c2 sk2 r a2"
    using live ok by simp
  have mem: "in_room ?s' r = [c1, c2]"
    using in_room_on_join_room_new [OF live not_in_rooms [OF live room ne]] room by simp
  have pr: "presence ?s' r = (if a1 = a2 then [(a2, c2)] else [(a1, c1), (a2, c2)])"
    using a1 a2 ne by (simp add: presence_def mem author_of_on_join_room obj_set_def)
  show ?thesis unfolding st fst_on_join_room mem pr by simp
qed

section \<open>The claims\<close>

subsection \<open>C1: events without a valid token\<close>

text \<open>
  C1 as stated fails: when two events of a connection are read together and rejected,
  the error listener runs once for each, and the connection is sent \<^verbatim>\<open>status\<close> twice, the
  second time after it was disconnected.
\<close>

theorem two_rejected_events_two_status:
  "sockets (snd (run init two_in_general)) ''c1''
     = Some \<lparr>token = Some ''tok'', data_room = Some ''general'', data_author = Some ''alice''\<rparr> \<and>
   \<not> reject ''tok'' \<and>
   fst (execs (quiet (snd (run init two_in_general)))
          [Arrive reject ''c1'' (SendMessage msg1),
           Arrive reject ''c1'' (Typing ''general'' ''alice''), Tick, Tick, Resume])
     = [([''c1''], status ''unauthorized''),
        ([''c1''], status ''unauthorized''),
        ([''c2''], online_users [(''bob'', ''c2'')]),
        ([''c2''], user_left (Some ''alice'') [(''bob'', ''c2'')])] \<and>
   received ''c1''
     (fst (execs (quiet (snd (run init two_in_general)))
          [Arrive reject ''c1'' (SendMessage msg1),
           Arrive reject ''c1'' (Typing ''general'' ''alice''), Tick, Tick, Resume]))
     = [status ''unauthorized'', status ''unauthorized'']"
  by code_simp

text \<open>
  C1, amended. For a connected socket whose handshake token is missing or empty, or on
  whose token the verifier throws: in every state, also after events that passed, a packet
  that is read queues the error listener and not the event's handler (no step changes a
  token, and nothing caches a success); when that deferred call runs, whatever ran
  before, it sends the connection exactly one \<^verbatim>\<open>status\<close> event with
  \<^verbatim>\<open>{status: 'unauthorized'}\<close> and leaves it disconnected; the handler of an event that
  was queued for a socket that has closed since does not run; a packet read for a closed
  socket queues nothing; and the only emission that can still reach a closed socket is
  that \<^verbatim>\<open>status\<close> of a rejected packet read before the close. So when \<open>n\<close> events of
  the connection are read together with nothing else pending, it receives exactly \<open>n\<close>
  \<^verbatim>\<open>status\<close> events (exactly one for an event read alone) and nothing else, the
  \<^verbatim>\<open>disconnect\<close> handler's broadcast follows once, and no handler of these events has run.
\<close>

theorem rejected_events:
  assumes live: "sockets (srv n) c = Some sk"
    and bad: "token sk = None \<or> token sk = Some [] \<or> (\<exists>t. token sk = Some t \<and> \<not> verify t)"
  shows "(\<forall>m sk' e. sockets (srv m) c = Some sk' \<and> token sk' = token sk \<longrightarrow>
            exec m (Arrive verify c e) = ([], m\<lparr>ticks := ticks m @ [Onerror c]\<rparr>)) \<and>
         (\<forall>m a sk1 sk2. sockets (srv m) c = Some sk1 \<and>
            sockets (srv (snd (exec m a))) c = Some sk2 \<longrightarrow> token sk2 = token sk1) \<and>
         (\<forall>m ts. ticks m = Onerror c # ts \<longrightarrow>
            fst (exec m Tick) = [([c], status ''unauthorized'')] \<and>
            sockets (srv (snd (exec m Tick))) c = None) \<and>
         (\<forall>m e ts. ticks m = Emit c e # ts \<and> sockets (srv m) c = None \<longrightarrow>
            exec m Tick = ([], m\<lparr>ticks := ts\<rparr>)) \<and>
         (\<forall>m v e. sockets (srv m) c = None \<longrightarrow> exec m (Arrive v c e) = ([], m)) \<and>
         (\<forall>m a em. sockets (srv m) c = None \<and> em \<in> set (fst (exec m a)) \<and> c \<in> set (fst em) \<longrightarrow>
            em = ([c], status ''unauthorized'') \<and> a = Tick \<and> (\<exists>ts. ticks m = Onerror c # ts)) \<and>
         (ticks n = [] \<and> conts n = [] \<longrightarrow>
            (\<forall>es. es \<noteq> [] \<longrightarrow>
               fst (execs n (map (Arrive verify c) es @ replicate (length es) Tick @ [Resume])) =
                 replicate (length es) ([c], status ''unauthorized'') @
                 on_disconnect (onclose (srv n) c) sk \<and>
               received c
                 (fst (execs n (map (Arrive verify c) es @ replicate (length es) Tick @ [Resume]))) =
                 replicate (length es) (status ''unauthorized'') \<and>
               srv (snd (execs n (map (Arrive verify c) es @ replicate (length es) Tick @ [Resume])))
                 = onclose (srv n) c))"
proof -
  from bad have na: "\<not> authorized verify sk" by (simp add: not_authorized_iff)
  have 1: "\<forall>m sk' e. sockets (srv m) c = Some sk' \<and> token sk' = token sk \<longrightarrow>
            exec m (Arrive verify c e) = ([], m\<lparr>ticks := ticks m @ [Onerror c]\<rparr>)"
    using na by (auto simp: authorized_def)
  have 2: "\<forall>m a sk1 sk2. sockets (srv m) c = Some sk1 \<and>
            sockets (srv (snd (exec m a))) c = Some sk2 \<longrightarrow> token sk2 = token sk1"
    using token_exec by blast
  have 3: "\<forall>m ts. ticks m = Onerror c # ts \<longrightarrow>
            fst (exec m Tick) = [([c], status ''unauthorized'')] \<and>
            sockets (srv (snd (exec m Tick))) c = None"
    by (simp add: listener_def sockets_socket_onclose)
  have 4: "\<forall>m e ts. ticks m = Emit c e # ts \<and> sockets (srv m) c = None \<longrightarrow>
            exec m Tick = ([], m\<lparr>ticks := ts\<rparr>)"
    by simp
  have 5: "\<forall>m v e. sockets (srv m) c = None \<longrightarrow> exec m (Arrive v c e) = ([], m)"
    by simp
  have 6: "\<forall>m a em. sockets (srv m) c = None \<and> em \<in> set (fst (exec m a)) \<and> c \<in> set (fst em) \<longrightarrow>
            em = ([c], status ''unauthorized'') \<and> a = Tick \<and> (\<exists>ts. ticks m = Onerror c # ts)"
    using closed_receives by blast
  have 7: "ticks n = [] \<and> conts n = [] \<longrightarrow>
            (\<forall>es. es \<noteq> [] \<longrightarrow>
               fst (execs n (map (Arrive verify c) es @ replicate (length es) Tick @ [Resume])) =
                 replicate (length es) ([c], status ''unauthorized'') @
                 on_disconnect (onclose (srv n) c) sk \<and>
               received c
                 (fst (execs n (map (Arrive verify c) es @ replicate (length es) Tick @ [Resume]))) =
                 replicate (length es) (status ''unauthorized'') \<and>
               srv (snd (execs n (map (Arrive verify c) es @ replicate (length es) Tick @ [Resume])))
                 = onclose (srv n) c)"
  proof (intro impI allI)
    fix es :: "inbound list"
    assume q: "ticks n = [] \<and> conts n = []" and es: "es \<noteq> []"
    from q have t: "ticks n = []" and k: "conts n = []" by simp_all
    note r = rejected_together [OF live na t k es]
    from r have "received c
        (fst (execs n (map (Arrive verify c) es @ replicate (length es) Tick @ [Resume]))) =
        replicate (length es) (status ''unauthorized'')"
      by (simp add: received_replicate received_disconnect del: execs.simps)
    with r show "fst (execs n (map (Arrive verify c) es @ replicate (length es) Tick @ [Resume])) =
                 replicate (length es) ([c], status ''unauthorized'') @
                 on_disconnect (onclose (srv n) c) sk \<and>
               received c
                 (fst (execs n (map (Arrive verify c) es @ replicate (length es) Tick @ [Resume]))) =
                 replicate (length es) (status ''unauthorized'') \<and>
               srv (snd (execs n (map (Arrive verify c) es @ replicate (length es) Tick @ [Resume])))
                 = onclose (srv n) c" by blast
  qed
  from 1 2 3 4 5 6 7 show ?thesis by blast
qed

theorem rejected_events_witness:
  "sockets (srv (quiet (snd (run init two_in_general)))) ''c1''
     = Some \<lparr>token = Some ''tok'', data_room = Some ''general'', data_author = Some ''alice''\<rparr> \<and>
   \<not> reject ''tok'' \<and>
   ticks (quiet (snd (run init two_in_general))) = [] \<and>
   conts (quiet (snd (run init two_in_general))) = [] \<and>
   fst (execs (quiet (snd (run init two_in_general)))
          [Arrive reject ''c1'' (SendMessage msg1), Tick, Resume])
     = [([''c1''], status ''unauthorized''),
        ([''c2''], online_users [(''bob'', ''c2'')]),
        ([''c2''], user_left (Some ''alice'') [(''bob'', ''c2'')])] \<and>
   received ''c1''
     (fst (execs (quiet (snd (run init two_in_general)))
          [Arrive reject ''c1'' (SendMessage msg1), Tick, Resume]))
     = [status ''unauthorized'']"
proof -
  let ?n = "quiet (snd (run init two_in_general))"
  let ?sk = "\<lparr>token = Some ''tok'', data_room = Some ''general'', data_author = Some ''alice''\<rparr>"
  have a: "sockets (srv ?n) ''c1'' = Some ?sk" by code_simp
  have e: "\<not> reject ''tok''" by (simp add: reject_def)
  have b: "token ?sk = None \<or> token ?sk = Some [] \<or> (\<exists>t. token ?sk = Some t \<and> \<not> reject t)"
    using e by simp
  have q: "ticks ?n = []" "conts ?n = []" by (simp_all add: quiet_def)
  have d: "fst (execs ?n [Arrive reject ''c1'' (SendMessage msg1), Tick, Resume])
     = [([''c1''], status ''unauthorized''),
        ([''c2''], online_users [(''bob'', ''c2'')]),
        ([''c2''], user_left (Some ''alice'') [(''bob'', ''c2'')])]" by code_simp
  from rejected_events [OF a b] q
  have "\<forall>es. es \<noteq> [] \<longrightarrow>
          received ''c1''
            (fst (execs ?n (map (Arrive reject ''c1'') es @ replicate (length es) Tick @ [Resume])))
            = replicate (length es) (status ''unauthorized'')" by blast
  from this [rule_format, of "[SendMessage msg1]"]
  have r: "received ''c1'' (fst (execs ?n [Arrive reject ''c1'' (SendMessage msg1), Tick, Resume]))
     = [status ''unauthorized'']" by (simp del: execs.simps)
  from a e q d r show ?thesis by blast
qed

subsection \<open>C2: who a broadcast reaches\<close>



subsection \<open>C3: joining a second room\<close>

text \<open>
  C3 as stated fails in its first half: \<^verbatim>\<open>socket.join\<close> adds a room and leaves none, and
  the membership query of the handlers (\<^verbatim>\<open>chatIO.in(room).fetchSockets()\<close>) reads the
  adapter's rooms, not \<^verbatim>\<open>socket.data.room\<close>. After \<^verbatim>\<open>c1\<close> joined \<^verbatim>\<open>a\<close> and then
  \<^verbatim>\<open>b\<close>, it is still what the query for \<^verbatim>\<open>a\<close> returns, and the presence recomputed
  for \<^verbatim>\<open>a\<close> when \<^verbatim>\<open>c2\<close> joins it lists \<^verbatim>\<open>c1\<close> and is delivered to it.
\<close>

theorem still_member_of_first_room:
  "sockets (snd (run init moved)) ''c1''
     = Some \<lparr>token = Some ''tok'', data_room = Some ''b'', data_author = Some ''alice''\<rparr> \<and>
   in_room (snd (run init moved)) ''a'' = [''c1''] \<and>
   fst (step accept (snd (run init moved)) (Inbound ''c2'' (JoinRoom ''a'' ''bob'')))
     = [([''c1'', ''c2''], online_users [(''alice'', ''c1''), (''bob'', ''c2'')]),
        ([''c1'', ''c2''], user_joined ''bob'' ''c2'' [(''alice'', ''c1''), (''bob'', ''c2'')])]"
  by code_simp

text \<open>
  C3, amended. When a connection that the membership query for room \<open>r\<close> returns issues
  \<^verbatim>\<open>join_room\<close> for a different room \<open>r'\<close>, the query for \<open>r\<close> returns the same
  connections as before, this one among them; its \<^verbatim>\<open>room\<close> attribute becomes \<open>r'\<close>; and
  every emission of the transition goes to the members of \<open>r'\<close> and none is a
  \<^verbatim>\<open>user_left\<close>.
\<close>

theorem join_room_keeps_first_room:
  assumes live: "sockets s c = Some sk" and ok: "authorized verify sk"
    and mem: "c \<in> set (in_room s r)" and ne: "r' \<noteq> r"
  shows "in_room (snd (step verify s (Inbound c (JoinRoom r' a)))) r = in_room s r \<and>
         c \<in> set (in_room (snd (step verify s (Inbound c (JoinRoom r' a)))) r) \<and>
         (\<exists>sk'. sockets (snd (step verify s (Inbound c (JoinRoom r' a)))) c = Some sk' \<and>
                data_room sk' = Some r') \<and>
         (\<forall>em \<in> set (fst (step verify s (Inbound c (JoinRoom r' a)))).
            fst em = in_room (snd (step verify s (Inbound c (JoinRoom r' a)))) r' \<and>
            (\<forall>b us. snd em \<noteq> user_left b us))"
proof -
  let ?s' = "snd (on_join_room s c sk r' a)"
  have st: "step verify s (Inbound c (JoinRoom r' a)) = on_join_room s c sk r' a"
    using live ok by simp
  have 1: "in_room ?s' r = in_room s r" by (rule in_room_on_join_room_other [OF live ne])
  have 2: "sockets ?s' c = Some (sk\<lparr>data_room := Some r', data_author := Some a\<rparr>)"
    by (simp add: sockets_on_join_room)
  have 3: "\<forall>em \<in> set (fst (on_join_room s c sk r' a)).
             fst em = in_room ?s' r' \<and> (\<forall>b us. snd em \<noteq> user_left b us)"
    by (simp add: fst_on_join_room)
  show ?thesis unfolding st using 1 2 3 mem by simp
qed

theorem join_room_keeps_first_room_witness:
  "sockets (snd (run init (take 2 moved))) ''c1''
     = Some \<lparr>token = Some ''tok'', data_room = Some ''a'', data_author = Some ''alice''\<rparr> \<and>
   authorized accept
     \<lparr>token = Some ''tok'', data_room = Some ''a'', data_author = Some ''alice''\<rparr> \<and>
   ''c1'' \<in> set (in_room (snd (run init (take 2 moved))) ''a'') \<and> ''b'' \<noteq> ''a'' \<and>
   fst (step accept (snd (run init (take 2 moved))) (Inbound ''c1'' (JoinRoom ''b'' ''alice'')))
     = [([''c1''], online_users [(''alice'', ''c1'')]),
        ([''c1''], user_joined ''alice'' ''c1'' [(''alice'', ''c1'')])] \<and>
   in_room (snd (step accept (snd (run init (take 2 moved)))
                  (Inbound ''c1'' (JoinRoom ''b'' ''alice'')))) ''a'' = [''c1'']"
proof -
  let ?s = "snd (run init (take 2 moved))"
  let ?sk = "\<lparr>token = Some ''tok'', data_room = Some ''a'', data_author = Some ''alice''\<rparr>"
  have a: "sockets ?s ''c1'' = Some ?sk" by code_simp
  have b: "authorized accept ?sk" by code_simp
  have c: "''c1'' \<in> set (in_room ?s ''a'')" by code_simp
  have d: "''b'' \<noteq> ''a''" by simp
  have e: "fst (step accept ?s (Inbound ''c1'' (JoinRoom ''b'' ''alice'')))
     = [([''c1''], online_users [(''alice'', ''c1'')]),
        ([''c1''], user_joined ''alice'' ''c1'' [(''alice'', ''c1'')])]" by code_simp
  have f: "in_room ?s ''a'' = [''c1'']" by code_simp
  from join_room_keeps_first_room [OF a b c d, of "''alice''"]
  have "in_room (snd (step accept ?s (Inbound ''c1'' (JoinRoom ''b'' ''alice'')))) ''a''
          = in_room ?s ''a''" by auto
  with a b c d e f show ?thesis by simp
qed

subsection \<open>C4: the \<^verbatim>\<open>disconnect\<close> handler\<close>

text \<open>
  C4 as stated fails when the room attribute is set to the empty string: line 182 tests
  \<^verbatim>\<open>if (room)\<close>, and the empty string is falsy. Two clients joined the room named by
  the empty string; when the first one closes, nothing is emitted.
\<close>

theorem no_user_left_for_the_empty_room:
  "sockets (snd (run init unnamed_room)) ''c1''
     = Some \<lparr>token = Some ''tok'', data_room = Some [], data_author = Some ''alice''\<rparr> \<and>
   in_room (snd (run init unnamed_room)) [] = [''c1'', ''c2''] \<and>
   fst (step accept (snd (run init unnamed_room)) (Close ''c1'')) = []"
  by code_simp

text \<open>
  C4, amended. When a connected socket closes, it is first taken out of the socket table
  and of every room. If its room attribute is a non-empty name, exactly two emissions
  follow, both to the sockets left in that room: \<^verbatim>\<open>online_users\<close> with the roster
  recomputed on that state, then \<^verbatim>\<open>user_left\<close> with the closed socket's author attribute
  and the recomputed mapping; neither reaches the closed socket nor names its id. If the
  attribute is unset or the empty string, nothing is emitted. And in every later run in
  which the id does not connect again, no emission reaches the closed socket or names its
  id in a payload.
\<close>

theorem disconnect_refreshes_presence:
  assumes live: "sockets s c = Some sk"
  shows "snd (step verify s (Close c)) = onclose s c \<and>
         sockets (onclose s c) c = None \<and>
         (\<forall>r. c \<notin> set (rooms (onclose s c) r)) \<and>
         (\<forall>r. data_room sk = Some r \<and> r \<noteq> [] \<longrightarrow>
            fst (step verify s (Close c))
              = [(in_room (onclose s c) r, online_users (obj_entries (presence (onclose s c) r))),
                 (in_room (onclose s c) r, user_left (data_author sk) (presence (onclose s c) r))] \<and>
            c \<notin> set (in_room (onclose s c) r) \<and>
            c \<notin> snd ` set (presence (onclose s c) r)) \<and>
         (data_room sk = None \<or> data_room sk = Some [] \<longrightarrow>
            fst (step verify s (Close c)) = []) \<and>
         (\<forall>ves. (\<forall>ve \<in> set ves. \<forall>tok. snd ve \<noteq> Connect c tok) \<longrightarrow>
            (\<forall>em \<in> set (fst (step verify s (Close c)) @ fst (run (onclose s c) ves)).
               c \<notin> set (fst em) \<and> c \<notin> set (payload_ids (snd em))))"
proof -
  have st: "step verify s (Close c) = (on_disconnect (onclose s c) sk, onclose s c)"
    using live by (simp add: disconnect_def Let_def)
  have 1: "snd (step verify s (Close c)) = onclose s c" unfolding st by simp
  have 2: "sockets (onclose s c) c = None" by (simp add: sockets_onclose)
  have 3: "\<forall>r. c \<notin> set (rooms (onclose s c) r)" by (simp add: rooms_onclose)
  have 4: "\<forall>r. data_room sk = Some r \<and> r \<noteq> [] \<longrightarrow>
            fst (step verify s (Close c))
              = [(in_room (onclose s c) r, online_users (obj_entries (presence (onclose s c) r))),
                 (in_room (onclose s c) r, user_left (data_author sk) (presence (onclose s c) r))] \<and>
            c \<notin> set (in_room (onclose s c) r) \<and>
            c \<notin> snd ` set (presence (onclose s c) r)"
    using in_room_live [of c "onclose s c"] presence_ids_live [of c "onclose s c"] 2
    unfolding st by (auto simp: on_disconnect_eq)
  have 5: "data_room sk = None \<or> data_room sk = Some [] \<longrightarrow> fst (step verify s (Close c)) = []"
    unfolding st by (auto simp: on_disconnect_none)
  have 6: "\<forall>ves. (\<forall>ve \<in> set ves. \<forall>tok. snd ve \<noteq> Connect c tok) \<longrightarrow>
            (\<forall>em \<in> set (fst (step verify s (Close c)) @ fst (run (onclose s c) ves)).
               c \<notin> set (fst em) \<and> c \<notin> set (payload_ids (snd em)))"
  proof (intro allI impI ballI)
    fix ves :: "((string \<Rightarrow> bool) \<times> event) list" and em
    assume nc: "\<forall>ve \<in> set ves. \<forall>tok. snd ve \<noteq> Connect c tok"
      and em: "em \<in> set (fst (step verify s (Close c)) @ fst (run (onclose s c) ves))"
    from em have "em \<in> set (fst (disconnect s c sk)) \<or> em \<in> set (fst (run (onclose s c) ves))"
      unfolding st by (auto simp: fst_disconnect)
    then show "c \<notin> set (fst em) \<and> c \<notin> set (payload_ids (snd em))"
    proof
      assume "em \<in> set (fst (disconnect s c sk))"
      from disconnect_live [OF this] 2 show ?thesis by (auto simp: live_only_def)
    next
      assume "em \<in> set (fst (run (onclose s c) ves))"
      with dead_run [OF 2 nc] show ?thesis by blast
    qed
  qed
  from 1 2 3 4 5 6 show ?thesis by blast
qed


theorem disconnect_refreshes_presence_witness:
  "sockets (snd (run init two_in_general)) ''c1''
     = Some \<lparr>token = Some ''tok'', data_room = Some ''general'', data_author = Some ''alice''\<rparr> \<and>
   fst (step accept (snd (run init two_in_general)) (Close ''c1''))
     = [([''c2''], online_users [(''bob'', ''c2'')]),
        ([''c2''], user_left (Some ''alice'') [(''bob'', ''c2'')])] \<and>
   in_room (onclose (snd (run init two_in_general)) ''c1'') ''general'' = [''c2''] \<and>
   fst (run (onclose (snd (run init two_in_general)) ''c1'')
          [(accept, Inbound ''c2'' (JoinRoom ''general'' ''bob''))])
     = [([''c2''], online_users [(''bob'', ''c2'')]),
        ([''c2''], user_joined ''bob'' ''c2'' [(''bob'', ''c2'')])]"
proof -
  let ?s = "snd (run init two_in_general)"
  let ?sk = "\<lparr>token = Some ''tok'', data_room = Some ''general'', data_author = Some ''alice''\<rparr>"
  have a: "sockets ?s ''c1'' = Some ?sk" by code_simp
  have r: "data_room ?sk = Some ''general'' \<and> ''general'' \<noteq> []" by simp
  have i: "in_room (onclose ?s ''c1'') ''general'' = [''c2'']" by code_simp
  have p: "presence (onclose ?s ''c1'') ''general'' = [(''bob'', ''c2'')]" by code_simp
  have o: "obj_entries [(''bob'', ''c2'')] = [(''bob'', ''c2'')]" by (rule obj_entries_single)
  have n: "fst (run (onclose ?s ''c1'') [(accept, Inbound ''c2'' (JoinRoom ''general'' ''bob''))])
     = [([''c2''], online_users [(''bob'', ''c2'')]),
        ([''c2''], user_joined ''bob'' ''c2'' [(''bob'', ''c2'')])]" by code_simp
  from disconnect_refreshes_presence [OF a, of accept] r
  have "fst (step accept ?s (Close ''c1''))
     = [(in_room (onclose ?s ''c1'') ''general'',
         online_users (obj_entries (presence (onclose ?s ''c1'') ''general''))),
        (in_room (onclose ?s ''c1'') ''general'',
         user_left (data_author ?sk) (presence (onclose ?s ''c1'') ''general''))]" by blast
  then have e: "fst (step accept ?s (Close ''c1''))
     = [([''c2''], online_users [(''bob'', ''c2'')]),
        ([''c2''], user_left (Some ''alice'') [(''bob'', ''c2'')])]"
    unfolding i p o by simp
  from a e i n show ?thesis by blast
qed

subsection \<open>C5: the roster of two connections\<close>

text \<open>
  C5 as stated fails: two connections with distinct author names give a roster of one
  entry when one of the names is the empty string (line 126 lists truthy authors only) or
  \<^verbatim>\<open>__proto__\<close> (the assignment of line 127 creates no property for that key); and when
  a connection sends \<^verbatim>\<open>join_room\<close> for \<^verbatim>\<open>general\<close> as bob and, right behind it,
  \<^verbatim>\<open>join_room\<close> for another room as alice, the roster of the first join is built after
  the second one has changed the author (line 120 writes it before the \<^verbatim>\<open>await\<close>, line
  126 reads it after): with alice already in \<^verbatim>\<open>general\<close> it has the one entry alice.
\<close>

theorem roster_of_two_distinct_names_has_one_entry:
  "[] \<noteq> ''bob'' \<and> ''__proto__'' \<noteq> ''bob'' \<and> ''alice'' \<noteq> ''bob'' \<and>
   fst (step accept (snd (run init nameless)) (Inbound ''c2'' (JoinRoom ''general'' ''bob'')))
     = [([''c1'', ''c2''], online_users [(''bob'', ''c2'')]),
        ([''c1'', ''c2''], user_joined ''bob'' ''c2'' [(''bob'', ''c2'')])] \<and>
   fst (step accept (snd (run init proto_named)) (Inbound ''c2'' (JoinRoom ''general'' ''bob'')))
     = [([''c1'', ''c2''], online_users [(''bob'', ''c2'')]),
        ([''c1'', ''c2''], user_joined ''bob'' ''c2'' [(''bob'', ''c2'')])] \<and>
   fst (execs (quiet (snd (run init (take 3 two_in_general))))
          [Arrive accept ''c2'' (JoinRoom ''general'' ''bob''),
           Arrive accept ''c2'' (JoinRoom ''x'' ''alice''), Tick, Tick, Resume, Resume])
     = [([''c1'', ''c2''], online_users [(''alice'', ''c2'')]),
        ([''c1'', ''c2''], user_joined ''bob'' ''c2'' [(''alice'', ''c2'')]),
        ([''c2''], online_users [(''alice'', ''c2'')]),
        ([''c2''], user_joined ''alice'' ''c2'' [(''alice'', ''c2'')])]"
  by code_simp

text \<open>
  C5, amended. Whenever a roster is built over two fetched connections whose author
  attributes are, at that moment, non-empty names other than \<^verbatim>\<open>__proto__\<close>: with
  distinct names the \<^verbatim>\<open>online_users\<close> roster has exactly 2 entries, one for each; with the
  same name it has exactly 1 entry, whose socket id is that of the connection enumerated
  last. That is the roster of a \<^verbatim>\<open>join_room\<close> that is read with nothing pending and
  handled before anything else, by a connection joining a room whose only connected
  socket is another connection: the names are then the other's attribute and the
  payload's author.
\<close>

theorem roster_of_two:
  assumes a1: "a1 \<noteq> []" "a1 \<noteq> ''__proto__''" and a2: "a2 \<noteq> []" "a2 \<noteq> ''__proto__''"
  shows "(\<forall>m k ks. conts m = k # ks \<and> cont_clients k = [c1, c2] \<and>
            author_of (objects m) c1 = Some a1 \<and> author_of (objects m) c2 = Some a2 \<longrightarrow>
            (\<exists>es ev. fst (exec m Resume) =
                       [(in_room (srv m) (cont_room k), online_users es),
                        (in_room (srv m) (cont_room k), ev)] \<and>
               (a1 \<noteq> a2 \<longrightarrow> length es = 2 \<and> set es = {(a1, c1), (a2, c2)}) \<and>
               (a1 = a2 \<longrightarrow> es = [(a2, c2)]))) \<and>
         (\<forall>n verify sk2 r. ticks n = [] \<and> conts n = [] \<and> sockets (srv n) c2 = Some sk2 \<and>
            authorized verify sk2 \<and> in_room (srv n) r = [c1] \<and> c1 \<noteq> c2 \<and>
            author_of (srv n) c1 = Some a1 \<longrightarrow>
            (\<exists>es. fst (execs n [Arrive verify c2 (JoinRoom r a2), Tick, Resume]) =
                    [([c1, c2], online_users es),
                     ([c1, c2], user_joined a2 c2
                        (if a1 = a2 then [(a2, c2)] else [(a1, c1), (a2, c2)]))] \<and>
               (a1 \<noteq> a2 \<longrightarrow> length es = 2 \<and> set es = {(a1, c1), (a2, c2)}) \<and>
               (a1 = a2 \<longrightarrow> es = [(a2, c2)])))"
proof -
  have 1: "\<forall>m k ks. conts m = k # ks \<and> cont_clients k = [c1, c2] \<and>
            author_of (objects m) c1 = Some a1 \<and> author_of (objects m) c2 = Some a2 \<longrightarrow>
            (\<exists>es ev. fst (exec m Resume) =
                       [(in_room (srv m) (cont_room k), online_users es),
                        (in_room (srv m) (cont_room k), ev)] \<and>
               (a1 \<noteq> a2 \<longrightarrow> length es = 2 \<and> set es = {(a1, c1), (a2, c2)}) \<and>
               (a1 = a2 \<longrightarrow> es = [(a2, c2)]))"
  proof (intro allI impI)
    fix m k ks
    assume h: "conts m = k # ks \<and> cont_clients k = [c1, c2] \<and>
               author_of (objects m) c1 = Some a1 \<and> author_of (objects m) c2 = Some a2"
    then have u: "forEach_users (objects m) [c1, c2] []
                    = (if a1 = a2 then [(a2, c2)] else [(a1, c1), (a2, c2)])"
      using users_of_two [of "objects m" c1 a1 c2 a2] a1 a2 by simp
    show "\<exists>es ev. fst (exec m Resume) =
                       [(in_room (srv m) (cont_room k), online_users es),
                        (in_room (srv m) (cont_room k), ev)] \<and>
               (a1 \<noteq> a2 \<longrightarrow> length es = 2 \<and> set es = {(a1, c1), (a2, c2)}) \<and>
               (a1 = a2 \<longrightarrow> es = [(a2, c2)])"
    proof (cases k)
      case (AfterJoin b i r' cl)
      with h u show ?thesis
        by (simp add: Let_def length_obj_entries set_obj_entries obj_entries_single)
    next
      case (AfterClose b r' cl)
      with h u show ?thesis
        by (simp add: Let_def length_obj_entries set_obj_entries obj_entries_single)
    qed
  qed
  have 2: "\<forall>n verify sk2 r. ticks n = [] \<and> conts n = [] \<and> sockets (srv n) c2 = Some sk2 \<and>
            authorized verify sk2 \<and> in_room (srv n) r = [c1] \<and> c1 \<noteq> c2 \<and>
            author_of (srv n) c1 = Some a1 \<longrightarrow>
            (\<exists>es. fst (execs n [Arrive verify c2 (JoinRoom r a2), Tick, Resume]) =
                    [([c1, c2], online_users es),
                     ([c1, c2], user_joined a2 c2
                        (if a1 = a2 then [(a2, c2)] else [(a1, c1), (a2, c2)]))] \<and>
               (a1 \<noteq> a2 \<longrightarrow> length es = 2 \<and> set es = {(a1, c1), (a2, c2)}) \<and>
               (a1 = a2 \<longrightarrow> es = [(a2, c2)]))"
  proof (intro allI impI)
    fix n :: node and verify sk2 r
    assume h: "ticks n = [] \<and> conts n = [] \<and> sockets (srv n) c2 = Some sk2 \<and>
            authorized verify sk2 \<and> in_room (srv n) r = [c1] \<and> c1 \<noteq> c2 \<and>
            author_of (srv n) c1 = Some a1"
    then have q: "ticks n = []" "conts n = []" and live: "sockets (srv n) c2 = Some sk2"
      and ok: "authorized verify sk2" and room: "in_room (srv n) r = [c1]"
      and ne: "c1 \<noteq> c2" and au: "author_of (srv n) c1 = Some a1" by simp_all
    from alone_Inbound [OF q, of verify c2 "JoinRoom r a2"]
    have "fst (execs n [Arrive verify c2 (JoinRoom r a2), Tick, Resume])
            = fst (step verify (srv n) (Inbound c2 (JoinRoom r a2)))" by blast
    also note roster_of_two_alone [OF live ok room ne au a1 a2]
    finally show "\<exists>es. fst (execs n [Arrive verify c2 (JoinRoom r a2), Tick, Resume]) =
                    [([c1, c2], online_users es),
                     ([c1, c2], user_joined a2 c2
                        (if a1 = a2 then [(a2, c2)] else [(a1, c1), (a2, c2)]))] \<and>
               (a1 \<noteq> a2 \<longrightarrow> length es = 2 \<and> set es = {(a1, c1), (a2, c2)}) \<and>
               (a1 = a2 \<longrightarrow> es = [(a2, c2)])"
      by (simp add: length_obj_entries set_obj_entries obj_entries_single
          del: execs.simps)
  qed
  from 1 2 show ?thesis by blast
qed

theorem roster_of_two_witness:
  "''alice'' \<noteq> [] \<and> ''alice'' \<noteq> ''__proto__'' \<and> ''bob'' \<noteq> [] \<and> ''bob'' \<noteq> ''__proto__'' \<and>
   ticks (quiet (snd (run init (take 3 two_in_general)))) = [] \<and>
   conts (quiet (snd (run init (take 3 two_in_general)))) = [] \<and>
   sockets (srv (quiet (snd (run init (take 3 two_in_general))))) ''c2''
     = Some (fresh (Some ''tok'')) \<and>
   authorized accept (fresh (Some ''tok'')) \<and>
   in_room (srv (quiet (snd (run init (take 3 two_in_general))))) ''general'' = [''c1''] \<and>
   ''c1'' \<noteq> ''c2'' \<and>
   author_of (srv (quiet (snd (run init (take 3 two_in_general))))) ''c1'' = Some ''alice'' \<and>
   (\<exists>es. fst (execs (quiet (snd (run init (take 3 two_in_general))))
               [Arrive accept ''c2'' (JoinRoom ''general'' ''bob''), Tick, Resume])
            = [([''c1'', ''c2''], online_users es),
               ([''c1'', ''c2''],
                user_joined ''bob'' ''c2'' [(''alice'', ''c1''), (''bob'', ''c2'')])] \<and>
          length es = 2 \<and> set es = {(''alice'', ''c1''), (''bob'', ''c2'')})"
proof -
  let ?n = "quiet (snd (run init (take 3 two_in_general)))"
  define F where "F = fst (execs ?n [Arrive accept ''c2'' (JoinRoom ''general'' ''bob''), Tick, Resume])"
  have n: "''alice'' \<noteq> []" "''alice'' \<noteq> ''__proto__''"
    "''bob'' \<noteq> []" "''bob'' \<noteq> ''__proto__''" by simp_all
  have q: "ticks ?n = []" "conts ?n = []" by (simp_all add: quiet_def)
  have a: "sockets (srv ?n) ''c2'' = Some (fresh (Some ''tok''))" by code_simp
  have b: "authorized accept (fresh (Some ''tok''))" by code_simp
  have c: "in_room (srv ?n) ''general'' = [''c1'']" by code_simp
  have d: "''c1'' \<noteq> ''c2''" by simp
  have e: "author_of (srv ?n) ''c1'' = Some ''alice''" by code_simp
  have h: "ticks ?n = [] \<and> conts ?n = [] \<and> sockets (srv ?n) ''c2'' = Some (fresh (Some ''tok'')) \<and>
           authorized accept (fresh (Some ''tok'')) \<and> in_room (srv ?n) ''general'' = [''c1''] \<and>
           ''c1'' \<noteq> ''c2'' \<and> author_of (srv ?n) ''c1'' = Some ''alice''"
    using q a b c d e by (intro conjI)
  from roster_of_two [OF n, of "''c1''" "''c2''", THEN conjunct2, rule_format, OF h]
  have "\<exists>es. F = [([''c1'', ''c2''], online_users es),
                  ([''c1'', ''c2''],
                   user_joined ''bob'' ''c2''
                     (if ''alice'' = ''bob'' then [(''bob'', ''c2'')]
                      else [(''alice'', ''c1''), (''bob'', ''c2'')]))] \<and>
             (''alice'' \<noteq> ''bob'' \<longrightarrow> length es = 2 \<and> set es = {(''alice'', ''c1''), (''bob'', ''c2'')}) \<and>
             (''alice'' = ''bob'' \<longrightarrow> es = [(''bob'', ''c2'')])"
    unfolding F_def .
  then have 1: "\<exists>es. F = [([''c1'', ''c2''], online_users es),
                  ([''c1'', ''c2''],
                   user_joined ''bob'' ''c2'' [(''alice'', ''c1''), (''bob'', ''c2'')])] \<and>
             length es = 2 \<and> set es = {(''alice'', ''c1''), (''bob'', ''c2'')}"
    by simp
  from n q a b c d e 1 show ?thesis unfolding F_def by (intro conjI)
qed

subsection \<open>C6: the entry of a joining connection\<close>

text \<open>
  C6 as stated fails: after \<^verbatim>\<open>c1\<close> joined \<^verbatim>\<open>general\<close> as alice, the next presence
  broadcast for the room, made when \<^verbatim>\<open>c2\<close> joins under the same name, has no entry for
  \<^verbatim>\<open>c1\<close>: the name's entry now carries the id of \<^verbatim>\<open>c2\<close>. A connection that joins with
  the empty string as author gets no entry even in the broadcast of its own join. And when
  a connection sends \<^verbatim>\<open>join_room\<close> as alice and, right behind it, \<^verbatim>\<open>join_room\<close> for
  another room as bob, the broadcast of the first join lists it as bob.
\<close>

theorem same_author_entry_is_replaced:
  "sockets (snd (run init (take 3 two_in_general))) ''c1''
     = Some \<lparr>token = Some ''tok'', data_room = Some ''general'', data_author = Some ''alice''\<rparr> \<and>
   fst (step accept (snd (run init (take 3 two_in_general)))
          (Inbound ''c2'' (JoinRoom ''general'' ''alice'')))
     = [([''c1'', ''c2''], online_users [(''alice'', ''c2'')]),
        ([''c1'', ''c2''], user_joined ''alice'' ''c2'' [(''alice'', ''c2'')])] \<and>
   (''alice'', ''c1'') \<notin> set [(''alice'', ''c2'')] \<and>
   fst (step accept (snd (run init [(accept, Connect ''c1'' (Some ''tok''))]))
          (Inbound ''c1'' (JoinRoom ''general'' [])))
     = [([''c1''], online_users []), ([''c1''], user_joined [] ''c1'' [])] \<and>
   fst (execs (quiet (snd (run init [(accept, Connect ''c1'' (Some ''tok''))])))
          [Arrive accept ''c1'' (JoinRoom ''general'' ''alice''),
           Arrive accept ''c1'' (JoinRoom ''x'' ''bob''), Tick, Tick, Resume, Resume])
     = [([''c1''], online_users [(''bob'', ''c1'')]),
        ([''c1''], user_joined ''alice'' ''c1'' [(''bob'', ''c1'')]),
        ([''c1''], online_users [(''bob'', ''c1'')]),
        ([''c1''], user_joined ''bob'' ''c1'' [(''bob'', ''c1'')])]"
  by code_simp

text \<open>
  C6, amended. Let the handler of a \<^verbatim>\<open>join_room\<close> of a connected socket \<open>c\<close> for room \<open>r\<close>
  with an author \<open>a\<close> that is not empty and not \<^verbatim>\<open>__proto__\<close> run, at a moment when no
  other \<^verbatim>\<open>join_room\<close>, no \<^verbatim>\<open>error\<close> event with the message \<^verbatim>\<open>unauthorized\<close> and no
  rejected packet of \<open>c\<close> is pending, and no handler is suspended that fetched \<open>r\<close> without
  \<open>c\<close>. Then after any further steps in which \<open>c\<close> is not closed and every packet read
  from \<open>c\<close> passes the middleware and is neither of these two events: \<open>c\<close> is connected
  with author \<open>a\<close> and is in \<open>r\<close>; and whenever a suspended handler for \<open>r\<close> continues, it
  has fetched \<open>c\<close>, it emits \<^verbatim>\<open>online_users\<close> and then its own event to the room, the
  roster is a list of (username, socket id) pairs with no username twice, and the roster
  and the \<^verbatim>\<open>users\<close> mapping hold an entry for \<open>a\<close>: with the id of the last fetched socket
  whose author is \<open>a\<close> at that moment, which is the pair \<open>(a, c)\<close> when no other fetched
  socket carries the name. The broadcast of the join itself, when no handler was
  suspended and \<open>c\<close> was not in \<open>r\<close>, holds the pair \<open>(a, c)\<close> and reaches \<open>c\<close>.
\<close>

theorem joined_author_stays_listed:
  assumes live: "sockets (srv m0) c = Some sk"
    and join: "ticks m0 = Emit c (JoinRoom r a) # ts"
    and a: "a \<noteq> []" "a \<noteq> ''__proto__''"
    and ts: "list_all (calm_task c) ts"
    and ks: "list_all (\<lambda>k. cont_room k \<noteq> r \<or> c \<in> set (cont_clients k)) (conts m0)"
    and xs: "list_all (calm_act c sk) xs"
  shows "(\<exists>sk'. sockets (srv (snd (execs (snd (exec m0 Tick)) xs))) c = Some sk' \<and>
                data_author sk' = Some a) \<and>
         c \<in> set (in_room (srv (snd (execs (snd (exec m0 Tick)) xs))) r) \<and>
         (\<forall>k ks'. conts (snd (execs (snd (exec m0 Tick)) xs)) = k # ks' \<and> cont_room k = r \<longrightarrow>
            c \<in> set (cont_clients k) \<and>
            (\<exists>es ev. fst (exec (snd (execs (snd (exec m0 Tick)) xs)) Resume) =
                       [(in_room (srv (snd (execs (snd (exec m0 Tick)) xs))) r, online_users es),
                        (in_room (srv (snd (execs (snd (exec m0 Tick)) xs))) r, ev)] \<and>
               (a, last [j \<leftarrow> cont_clients k.
                           author_of (objects (snd (execs (snd (exec m0 Tick)) xs))) j = Some a])
                 \<in> set es \<and>
               (a, last [j \<leftarrow> cont_clients k.
                           author_of (objects (snd (execs (snd (exec m0 Tick)) xs))) j = Some a])
                 \<in> set (payload_users ev) \<and>
               ((\<forall>j \<in> set (cont_clients k).
                    author_of (objects (snd (execs (snd (exec m0 Tick)) xs))) j = Some a \<longrightarrow> j = c) \<longrightarrow>
                  (a, c) \<in> set es \<and> (a, c) \<in> set (payload_users ev)) \<and>
               distinct (map fst es))) \<and>
         (conts m0 = [] \<and> c \<notin> set (rooms (srv m0) r) \<longrightarrow>
            (\<exists>rs es us. fst (exec (snd (exec m0 Tick)) Resume) =
                          [(rs, online_users es), (rs, user_joined a c us)] \<and>
               c \<in> set rs \<and> (a, c) \<in> set es \<and> (a, c) \<in> set us))"
proof -
  let ?M = "snd (execs (snd (exec m0 Tick)) xs)"
  have l: "listed c r a sk ?M"
    by (rule listed_execs [OF join_lists [OF live join ts ks] xs])
  have 1: "\<exists>sk'. sockets (srv ?M) c = Some sk' \<and> data_author sk' = Some a"
    using l by (auto simp: listed_def)
  have 2: "c \<in> set (in_room (srv ?M) r)" by (rule listed_in_room [OF l])
  have 3: "\<forall>k ks'. conts ?M = k # ks' \<and> cont_room k = r \<longrightarrow>
            c \<in> set (cont_clients k) \<and>
            (\<exists>es ev. fst (exec ?M Resume) =
                       [(in_room (srv ?M) r, online_users es), (in_room (srv ?M) r, ev)] \<and>
               (a, last [j \<leftarrow> cont_clients k. author_of (objects ?M) j = Some a]) \<in> set es \<and>
               (a, last [j \<leftarrow> cont_clients k. author_of (objects ?M) j = Some a])
                 \<in> set (payload_users ev) \<and>
               ((\<forall>j \<in> set (cont_clients k). author_of (objects ?M) j = Some a \<longrightarrow> j = c) \<longrightarrow>
                  (a, c) \<in> set es \<and> (a, c) \<in> set (payload_users ev)) \<and>
               distinct (map fst es))"
  proof (intro allI impI)
    fix k ks' assume "conts ?M = k # ks' \<and> cont_room k = r"
    then have k: "conts ?M = k # ks'" and kr: "cont_room k = r" by simp_all
    from l k kr have c: "c \<in> set (cont_clients k)" by (simp add: listed_def)
    from l have "sockets (srv ?M) c \<noteq> None" "author_of (srv ?M) c = Some a"
      by (auto simp: listed_def author_of_def)
    then have ac: "author_of (objects ?M) c = Some a" by (simp add: author_of_objects_live)
    from resume_lists [OF l k kr a] obtain es ev where
      e: "fst (exec ?M Resume) =
            [(in_room (srv ?M) r, online_users es), (in_room (srv ?M) r, ev)]"
      and i: "(a, last [j \<leftarrow> cont_clients k. author_of (objects ?M) j = Some a]) \<in> set es"
      and p: "(a, last [j \<leftarrow> cont_clients k. author_of (objects ?M) j = Some a])
                 \<in> set (payload_users ev)"
      and d: "distinct (map fst es)" by blast
    have o: "(\<forall>j \<in> set (cont_clients k). author_of (objects ?M) j = Some a \<longrightarrow> j = c) \<longrightarrow>
                  (a, c) \<in> set es \<and> (a, c) \<in> set (payload_users ev)"
    proof
      assume "\<forall>j \<in> set (cont_clients k). author_of (objects ?M) j = Some a \<longrightarrow> j = c"
      with c ac have "last [j \<leftarrow> cont_clients k. author_of (objects ?M) j = Some a] = c"
        using last_filter_only [of c "cont_clients k" "\<lambda>j. author_of (objects ?M) j = Some a"]
        by blast
      with i p show "(a, c) \<in> set es \<and> (a, c) \<in> set (payload_users ev)" by simp
    qed
    from c e i p o d
    show "c \<in> set (cont_clients k) \<and>
            (\<exists>es ev. fst (exec ?M Resume) =
                       [(in_room (srv ?M) r, online_users es), (in_room (srv ?M) r, ev)] \<and>
               (a, last [j \<leftarrow> cont_clients k. author_of (objects ?M) j = Some a]) \<in> set es \<and>
               (a, last [j \<leftarrow> cont_clients k. author_of (objects ?M) j = Some a])
                 \<in> set (payload_users ev) \<and>
               ((\<forall>j \<in> set (cont_clients k). author_of (objects ?M) j = Some a \<longrightarrow> j = c) \<longrightarrow>
                  (a, c) \<in> set es \<and> (a, c) \<in> set (payload_users ev)) \<and>
               distinct (map fst es))" by blast
  qed
  have 4: "conts m0 = [] \<and> c \<notin> set (rooms (srv m0) r) \<longrightarrow>
            (\<exists>rs es us. fst (exec (snd (exec m0 Tick)) Resume) =
                          [(rs, online_users es), (rs, user_joined a c us)] \<and>
               c \<in> set rs \<and> (a, c) \<in> set es \<and> (a, c) \<in> set us)"
    using fresh_join_lists [OF live join _ a] by blast
  from 1 2 3 4 show ?thesis by blast
qed

theorem joined_author_stays_listed_witness:
  "sockets (srv bob_arrives) ''c2'' = Some (fresh (Some ''tok'')) \<and>
   ticks bob_arrives = [Emit ''c2'' (JoinRoom ''general'' ''bob'')] \<and>
   conts bob_arrives = [] \<and>
   ''bob'' \<noteq> [] \<and> ''bob'' \<noteq> ''__proto__'' \<and>
   list_all (calm_act ''c2'' (fresh (Some ''tok''))) after_bob \<and>
   conts bob_listed = [AfterJoin ''carol'' ''c3'' ''general'' [''c1'', ''c2'', ''c3'']] \<and>
   fst (exec bob_listed Resume)
     = [([''c1'', ''c2'', ''c3''],
         online_users [(''alice'', ''c1''), (''bob'', ''c2''), (''carol'', ''c3'')]),
        ([''c1'', ''c2'', ''c3''],
         user_joined ''carol'' ''c3''
           [(''alice'', ''c1''), (''bob'', ''c2''), (''carol'', ''c3'')])] \<and>
   ''c2'' \<in> set (in_room (srv bob_listed) ''general'')"
proof -
  have a: "sockets (srv bob_arrives) ''c2'' = Some (fresh (Some ''tok''))" by code_simp
  have t: "ticks bob_arrives = Emit ''c2'' (JoinRoom ''general'' ''bob'') # []" by code_simp
  have c: "conts bob_arrives = []" by code_simp
  have n: "''bob'' \<noteq> []" "''bob'' \<noteq> ''__proto__''" by simp_all
  have ts: "list_all (calm_task ''c2'') []" by simp
  have ks: "list_all (\<lambda>k. cont_room k \<noteq> ''general'' \<or> ''c2'' \<in> set (cont_clients k))
              (conts bob_arrives)" unfolding c by simp
  have xs: "list_all (calm_act ''c2'' (fresh (Some ''tok''))) after_bob" by code_simp
  have k: "conts bob_listed = [AfterJoin ''carol'' ''c3'' ''general'' [''c1'', ''c2'', ''c3'']]"
    by code_simp
  have d: "fst (exec bob_listed Resume)
     = [([''c1'', ''c2'', ''c3''],
         online_users [(''alice'', ''c1''), (''bob'', ''c2''), (''carol'', ''c3'')]),
        ([''c1'', ''c2'', ''c3''],
         user_joined ''carol'' ''c3''
           [(''alice'', ''c1''), (''bob'', ''c2''), (''carol'', ''c3'')])]"
    by code_simp
  from joined_author_stays_listed [OF a t n ts ks xs, THEN conjunct2, THEN conjunct1]
  have r: "''c2'' \<in> set (in_room (srv bob_listed) ''general'')"
    unfolding bob_listed_def .
  from a t c n xs k d r show ?thesis by (intro conjI)
qed

subsection \<open>C7: the relay of \<^verbatim>\<open>send_message\<close>\<close>




subsection \<open>C8: the relay of \<^verbatim>\<open>private_message\<close>\<close>





subsection \<open>C9: who is listed\<close>

text \<open>
  C9. Whatever the event, every presence entry that an emission carries (in the
  \<^verbatim>\<open>online_users\<close> roster or in the \<^verbatim>\<open>users\<close> mapping of \<^verbatim>\<open>user_joined\<close> and
  \<^verbatim>\<open>user_left\<close>) pairs a non-empty name with the id of a socket that the emission reaches
  and whose author attribute is that name. So a socket whose author attribute is unset or
  the empty string is in no entry, also when it is in the room.
\<close>

theorem presence_lists_truthy_authors_only:
  assumes em: "em \<in> set (fst (step verify s ev))"
  shows "(\<forall>(a, j) \<in> set (payload_users (snd em)).
            a \<noteq> [] \<and> author_of (snd (step verify s ev)) j = Some a \<and> j \<in> set (fst em)) \<and>
         (\<forall>j. author_of (snd (step verify s ev)) j = None \<or>
              author_of (snd (step verify s ev)) j = Some [] \<longrightarrow>
              j \<notin> snd ` set (payload_users (snd em)))"
proof -
  have 1: "\<forall>(a, j) \<in> set (payload_users (snd em)).
            a \<noteq> [] \<and> author_of (snd (step verify s ev)) j = Some a \<and> j \<in> set (fst em)"
    using step_users [OF em] by blast
  then have 2: "\<forall>j. author_of (snd (step verify s ev)) j = None \<or>
              author_of (snd (step verify s ev)) j = Some [] \<longrightarrow>
              j \<notin> snd ` set (payload_users (snd em))"
    by fastforce
  from 1 2 show ?thesis by blast
qed


theorem presence_lists_truthy_authors_only_witness:
  "([''c2'', ''c1''], online_users [(''alice'', ''c1'')])
     \<in> set (fst (step accept (snd (run init (take 2 three_clients)))
                     (Inbound ''c1'' (JoinRoom ''c2'' ''alice'')))) \<and>
   author_of (snd (step accept (snd (run init (take 2 three_clients)))
                     (Inbound ''c1'' (JoinRoom ''c2'' ''alice'')))) ''c2'' = None \<and>
   ''c2'' \<notin> snd ` set (payload_users (online_users [(''alice'', ''c1'')])) \<and>
   ([''c1'', ''c2''], user_joined ''bob'' ''c2'' [(''bob'', ''c2'')])
     \<in> set (fst (step accept (snd (run init nameless))
                     (Inbound ''c2'' (JoinRoom ''general'' ''bob'')))) \<and>
   author_of (snd (step accept (snd (run init nameless))
                     (Inbound ''c2'' (JoinRoom ''general'' ''bob'')))) ''c1'' = Some [] \<and>
   ''c1'' \<notin> snd ` set (payload_users (user_joined ''bob'' ''c2'' [(''bob'', ''c2'')]))"
proof -
  let ?s1 = "snd (run init (take 2 three_clients))"
  let ?e1 = "Inbound ''c1'' (JoinRoom ''c2'' ''alice'')"
  let ?s2 = "snd (run init nameless)"
  let ?e2 = "Inbound ''c2'' (JoinRoom ''general'' ''bob'')"
  have m1: "([''c2'', ''c1''], online_users [(''alice'', ''c1'')])
              \<in> set (fst (step accept ?s1 ?e1))" by code_simp
  have a1: "author_of (snd (step accept ?s1 ?e1)) ''c2'' = None" by code_simp
  have m2: "([''c1'', ''c2''], user_joined ''bob'' ''c2'' [(''bob'', ''c2'')])
              \<in> set (fst (step accept ?s2 ?e2))" by code_simp
  have a2: "author_of (snd (step accept ?s2 ?e2)) ''c1'' = Some []" by code_simp
  from presence_lists_truthy_authors_only [OF m1] a1
  have r1: "''c2'' \<notin> snd ` set (payload_users (online_users [(''alice'', ''c1'')]))"
    unfolding snd_conv by blast
  from presence_lists_truthy_authors_only [OF m2] a2
  have r2: "''c1'' \<notin> snd ` set (payload_users (user_joined ''bob'' ''c2'' [(''bob'', ''c2'')]))"
    unfolding snd_conv by blast
  from m1 a1 r1 m2 a2 r2 show ?thesis by blast
qed

subsection \<open>C10: a private message to oneself\<close>

text \<open>
  C10. A \<^verbatim>\<open>private_message\<close> whose \<^verbatim>\<open>toSocketId\<close> is the sender's own id delivers
  nothing: the one \<^verbatim>\<open>emit\<close> of the handler reaches no connection (the target room is
  the sender's own room, which is also the room \<^verbatim>\<open>socket.to\<close> excepts), nothing else
  is emitted (no error, no \<^verbatim>\<open>status\<close>), and the server state is unchanged.
\<close>

theorem private_message_to_self_is_dropped:
  assumes "sockets s c = Some sk" and "authorized verify sk"
  shows "step verify s (Inbound c (PrivateMessage c m)) = ([([], receive_private_message m)], s)"
  using assms by (simp add: to_room_alt filter_empty_conv)

theorem private_message_to_self_is_dropped_witness:
  "sockets (snd (run init [(accept, Connect ''c1'' (Some ''tok''))])) ''c1''
     = Some (fresh (Some ''tok'')) \<and>
   authorized accept (fresh (Some ''tok'')) \<and>
   fst (step accept (snd (run init [(accept, Connect ''c1'' (Some ''tok''))]))
      (Inbound ''c1'' (PrivateMessage ''c1'' msg1))) = [([], receive_private_message msg1)]"
proof -
  let ?s = "snd (run init [(accept, Connect ''c1'' (Some ''tok''))])"
  have a: "sockets ?s ''c1'' = Some (fresh (Some ''tok''))" by code_simp
  have b: "authorized accept (fresh (Some ''tok''))" by code_simp
  from private_message_to_self_is_dropped [OF a b, of msg1] a b show ?thesis by simp
qed

end
